theory Spec2Isabelle
  imports Complex_Main
begin

section \<open>Cells of the particle array\<close>

text \<open>
  The simulation keeps one numpy array \<open>particle_state\<close> of shape (particle_count, 4):
  row \<open>k\<close> is \<open>[x, y, vx, vy]\<close> of particle \<open>k\<close>. The cells are floats. They are
  modelled as reals, plus one value \<open>Undef\<close> for a cell that is no real number:
  numpy does not raise on a division by zero, it yields \<open>inf\<close> or \<open>nan\<close> and goes on.
  \<open>Undef\<close> is absorbing in the arithmetic and makes every comparison false, as \<open>nan\<close>
  does. (In \<open>step\<close> the two quotients are only ever multiplied by \<open>pos_diff\<close>, which is
  the zero vector when the divisor is zero, so an \<open>inf\<close> quotient is \<open>nan\<close> before it
  is stored.)

  The operations \<open>fadd\<close>, \<open>fsub\<close>, \<open>fmul\<close>, \<open>fdiv\<close>, \<open>fsqrt\<close> are the exact ones
  of the reals; the integration and the collision stage are written with them, and the
  properties of those stages are properties over exact real arithmetic. The comparisons
  and the negation are exact in float64 as well. The two sums of the boundary reflector
  are written with the rounded operations \<open>radd\<close> and \<open>rsub\<close> further down.
\<close>

datatype val = Num real | Undef

fun fadd :: "val \<Rightarrow> val \<Rightarrow> val" where
  "fadd (Num a) (Num b) = Num (a + b)"
| "fadd _ _ = Undef"

fun fsub :: "val \<Rightarrow> val \<Rightarrow> val" where
  "fsub (Num a) (Num b) = Num (a - b)"
| "fsub _ _ = Undef"

fun fmul :: "val \<Rightarrow> val \<Rightarrow> val" where
  "fmul (Num a) (Num b) = Num (a * b)"
| "fmul _ _ = Undef"

fun fdiv :: "val \<Rightarrow> val \<Rightarrow> val" where
  "fdiv (Num a) (Num b) = (if b = 0 then Undef else Num (a / b))"
| "fdiv _ _ = Undef"

fun fneg :: "val \<Rightarrow> val" where
  "fneg (Num a) = Num (- a)"
| "fneg Undef = Undef"

fun fsqrt :: "val \<Rightarrow> val" where
  "fsqrt (Num a) = (if a < 0 then Undef else Num (sqrt a))"
| "fsqrt Undef = Undef"

fun fle :: "val \<Rightarrow> val \<Rightarrow> bool" where
  "fle (Num a) (Num b) = (a \<le> b)"
| "fle _ _ = False"

fun flt :: "val \<Rightarrow> val \<Rightarrow> bool" where
  "flt (Num a) (Num b) = (a < b)"
| "flt _ _ = False"

subsection \<open>Rounding to float64\<close>

text \<open>
  \<open>float64 x\<close> is the binary64 number nearest to \<open>x\<close>, ties to the even significand:
  for \<open>2^e \<le> |x| < 2^(e+1)\<close> the multiples of \<open>2^(e-52)\<close> are the candidates, and below
  \<open>2^(-1022)\<close> the multiples of \<open>2^(-1074)\<close>. A rounded result of magnitude \<open>2^1024\<close> or
  more is an infinity in numpy, so no real number, and \<open>fl\<close> gives \<open>Undef\<close> for it.
\<close>

definition round_half_even :: "real \<Rightarrow> int" where
  "round_half_even q =
     (let f = \<lfloor>q\<rfloor>; d = q - of_int f
      in if d < 1/2 then f else if 1/2 < d then f + 1 else if even f then f else f + 1)"

definition float64 :: "real \<Rightarrow> real" where
  "float64 x =
     (if x = 0 then 0
      else let e = max \<lfloor>log 2 \<bar>x\<bar>\<rfloor> (- 1022); u = 2 powr (of_int e - 52)
           in of_int (round_half_even (x / u)) * u)"

fun fl :: "val \<Rightarrow> val" where
  "fl (Num a) = (if 2 ^ 1024 \<le> \<bar>float64 a\<bar> then Undef else Num (float64 a))"
| "fl Undef = Undef"

definition radd :: "val \<Rightarrow> val \<Rightarrow> val" where
  "radd a b = fl (fadd a b)"

definition rsub :: "val \<Rightarrow> val \<Rightarrow> val" where
  "rsub a b = fl (fsub a b)"

text \<open>Two cells side by side: a position \<open>[:, :2]\<close> or a velocity \<open>[:, 2:]\<close>.\<close>

type_synonym vec = "val \<times> val"

definition vec_add :: "vec \<Rightarrow> vec \<Rightarrow> vec" where
  "vec_add u v = (fadd (fst u) (fst v), fadd (snd u) (snd v))"

definition vec_sub :: "vec \<Rightarrow> vec \<Rightarrow> vec" where
  "vec_sub u v = (fsub (fst u) (fst v), fsub (snd u) (snd v))"

definition scale :: "val \<Rightarrow> vec \<Rightarrow> vec" where
  \<comment> \<open>a scalar broadcast over the two columns\<close>
  "scale c v = (fmul c (fst v), fmul c (snd v))"

definition einsum_dot :: "vec \<Rightarrow> vec \<Rightarrow> val" where
  \<comment> \<open>one row of \<open>np.einsum('ij,ij->i', a, b)\<close>\<close>
  "einsum_dot u v = fadd (fmul (fst u) (fst v)) (fmul (snd u) (snd v))"

definition norm_row :: "vec \<Rightarrow> val" where
  \<comment> \<open>one row of \<open>norm(a, axis=1)\<close>\<close>
  "norm_row v = fsqrt (fadd (fmul (fst v) (fst v)) (fmul (snd v) (snd v)))"

definition coord :: "nat \<Rightarrow> vec \<Rightarrow> val" where
  "coord i v = (if i = 0 then fst v else snd v)"

definition set_coord :: "nat \<Rightarrow> val \<Rightarrow> vec \<Rightarrow> vec" where
  "set_coord i c v = (if i = 0 then (c, snd v) else (fst v, c))"

record particle =
  pos :: vec
  vel :: vec

type_synonym state = "particle list"

text \<open>
  The module's globals that \<open>step\<close> reads: the canvas size \<open>w, h\<close> (700 by 700 in the
  source) and the \<open>radius\<close> (read from the user, with no check against the canvas).
\<close>

record config =
  w :: real
  h :: real
  radius :: real

section \<open>Array indexing\<close>

definition triu_indices :: "nat \<Rightarrow> (nat \<times> nat) list" where
  \<comment> \<open>\<open>np.triu_indices(n, k=1)\<close>: the pairs \<open>i < j\<close>, row by row\<close>
  "triu_indices n = concat (map (\<lambda>i. map (Pair i) [Suc i..<n]) [0..<n])"

definition bool_index :: "'a list \<Rightarrow> bool list \<Rightarrow> 'a list" where
  \<comment> \<open>\<open>xs[mask]\<close> for a boolean mask of the same length\<close>
  "bool_index xs msk = map fst (filter snd (zip xs msk))"

definition int_index :: "'a list \<Rightarrow> nat list \<Rightarrow> 'a list" where
  \<comment> \<open>\<open>xs[idx]\<close> for an array of indices. numpy raises on an index out of range; the
      indices that \<open>step\<close> passes come from \<open>np.unique\<close> on an array of the same
      length and are in range (\<open>unique_index_range\<close> below)\<close>
  "int_index xs idx = map (\<lambda>k. xs ! k) idx"

fun first_index :: "nat list \<Rightarrow> nat \<Rightarrow> nat" where
  "first_index [] v = 0"
| "first_index (x # xs) v = (if x = v then 0 else Suc (first_index xs v))"

definition unique_index :: "nat list \<Rightarrow> nat list" where
  \<comment> \<open>the second result of \<open>np.unique(xs, return_index=True)\<close>: for each distinct value,
      in ascending order of the values, the index of its first occurrence\<close>
  "unique_index xs = map (first_index xs) (sort (remdups xs))"

definition in1d_invert :: "nat list \<Rightarrow> nat list \<Rightarrow> bool list" where
  \<comment> \<open>\<open>np.in1d(xs, ys, invert=True)\<close>\<close>
  "in1d_invert xs ys = map (\<lambda>x. x \<notin> set ys) xs"

definition masked_update :: "bool list \<Rightarrow> ('a \<Rightarrow> 'a) \<Rightarrow> 'a list \<Rightarrow> 'a list" where
  \<comment> \<open>\<open>a[mask] = f(a[mask])\<close>, row by row\<close>
  "masked_update msk f xs = map (\<lambda>(m, x). if m then f x else x) (zip msk xs)"

definition assign_rows :: "('v \<Rightarrow> 'a \<Rightarrow> 'a) \<Rightarrow> nat list \<Rightarrow> 'v list \<Rightarrow> 'a list \<Rightarrow> 'a list" where
  \<comment> \<open>\<open>a[idx, cols] = vals\<close> for an array of row indices: the rows are written one after
      the other, so of two writes to one row the later one stays. The row indices that
      \<open>step\<close> passes are particle indices (\<open>detect_pairs_range\<close> below)\<close>
  "assign_rows upd idx vals xs = fold (\<lambda>(k, v) s. s[k := upd v (s ! k)]) (zip idx vals) xs"

definition assign_vel :: "nat list \<Rightarrow> vec list \<Rightarrow> state \<Rightarrow> state" where
  \<comment> \<open>\<open>particle_state[idx, 2:] = vals\<close>\<close>
  "assign_vel idx vals st = assign_rows (\<lambda>v p. p\<lparr>vel := v\<rparr>) idx vals st"

definition assign_pos :: "nat list \<Rightarrow> vec list \<Rightarrow> state \<Rightarrow> state" where
  \<comment> \<open>\<open>particle_state[idx, :2] = vals\<close>\<close>
  "assign_pos idx vals st = assign_rows (\<lambda>v p. p\<lparr>pos := v\<rparr>) idx vals st"

section \<open>The step function\<close>

text \<open>
  \<open>step(time_step, particle_state)\<close> updates the array in place; the model returns the new
  array. Its parts, in the order of the source: the integration (\<open>advance\<close>), the
  detection of the colliding pairs and the three filters on them (\<open>detect\<close>), the new
  velocities and positions of the pairs left (\<open>resolve\<close>), and the walls
  (\<open>rebound\<close>). The last lines of \<open>step\<close> move the ovals on the canvas by the change of
  position; they read the array and do not write it, and are left out.
\<close>

definition advance :: "real \<Rightarrow> state \<Rightarrow> state" where
  \<comment> \<open>\<open>particle_state[:, :2] += particle_state[:, 2:] * time_step\<close>\<close>
  "advance time_step st =
     map (\<lambda>p. p\<lparr>pos := vec_add (pos p) (scale (Num time_step) (vel p))\<rparr>) st"

definition euclidean :: "vec \<Rightarrow> vec \<Rightarrow> val" where
  \<comment> \<open>the metric of scipy's \<open>pdist\<close>: the 2-norm of the difference\<close>
  "euclidean u v = norm_row (vec_sub u v)"

definition pdist :: "vec list \<Rightarrow> val list" where
  \<comment> \<open>the condensed distance matrix, in the order of \<open>triu_indices\<close>\<close>
  "pdist X = map (\<lambda>(i, j). euclidean (X ! i) (X ! j)) (triu_indices (length X))"

definition detect :: "real \<Rightarrow> state \<Rightarrow> nat list \<times> nat list" where
  \<comment> \<open>from \<open>distances = pdist(...)\<close> to the last rebinding of \<open>colliding_1, colliding_2\<close>;
      the source rebinds the two names and \<open>mask\<close>, the model primes them\<close>
  "detect r st =
    (let upper_triangle_indices = triu_indices (length st);
         distances = pdist (map pos st);
         is_colliding = map (\<lambda>d. fle d (Num (2 * r))) distances;
         colliding_1 = bool_index (map fst upper_triangle_indices) is_colliding;
         colliding_2 = bool_index (map snd upper_triangle_indices) is_colliding;
         mask_1 = unique_index colliding_1;
         colliding_1' = int_index colliding_1 mask_1;
         colliding_2' = int_index colliding_2 mask_1;
         mask_2 = unique_index colliding_2';
         colliding_1'' = int_index colliding_1' mask_2;
         colliding_2'' = int_index colliding_2' mask_2;
         distinct_pairs = in1d_invert colliding_1'' colliding_2''
     in (bool_index colliding_1'' distinct_pairs, bool_index colliding_2'' distinct_pairs))"

definition resolve :: "real \<Rightarrow> nat list \<Rightarrow> nat list \<Rightarrow> state \<Rightarrow> state" where
  \<comment> \<open>the body of \<open>if colliding_1.size:\<close>. The four right-hand sides are built from
      \<open>pos_1, pos_2, vel_1, vel_2\<close>, which are copies taken before the first assignment.
      \<open>dv\<close> is \<open>(scalar_product / pos_diff_norm ** 2) * pos_diff\<close> and \<open>dp\<close> is
      \<open>0.5 * ((2 * radius / pos_diff_norm) - 1) * pos_diff\<close>; no test guards the divisions\<close>
  "resolve r colliding_1 colliding_2 st =
    (if colliding_1 = [] then st
     else
       let pos_1 = map (\<lambda>k. pos (st ! k)) colliding_1;
           pos_2 = map (\<lambda>k. pos (st ! k)) colliding_2;
           vel_1 = map (\<lambda>k. vel (st ! k)) colliding_1;
           vel_2 = map (\<lambda>k. vel (st ! k)) colliding_2;
           pos_diff = map2 vec_sub pos_2 pos_1;
           vel_diff = map2 vec_sub vel_1 vel_2;
           scalar_product = map2 einsum_dot vel_diff pos_diff;
           pos_diff_norm = map norm_row pos_diff;
           dv = map2 scale (map2 (\<lambda>s n. fdiv s (fmul n n)) scalar_product pos_diff_norm) pos_diff;
           st1 = assign_vel colliding_1 (map2 vec_sub vel_1 dv) st;
           st2 = assign_vel colliding_2 (map2 vec_add vel_2 dv) st1;
           dp = map2 scale
                  (map (\<lambda>n. fmul (Num (1/2)) (fsub (fdiv (Num (2 * r)) n) (Num 1))) pos_diff_norm)
                  pos_diff;
           st3 = assign_pos colliding_1 (map2 vec_sub pos_1 dp) st2
       in assign_pos colliding_2 (map2 vec_add pos_2 dp) st3)"

definition collide :: "config \<Rightarrow> state \<Rightarrow> state" where
  "collide cfg st = (case detect (radius cfg) st of (colliding_1, colliding_2) \<Rightarrow>
     resolve (radius cfg) colliding_1 colliding_2 st)"

definition push_low :: "real \<Rightarrow> val \<Rightarrow> val" where
  \<comment> \<open>the new coordinate of \<open>x += radius - x + 1\<close>, that is \<open>x + ((radius - x) + 1)\<close>,
      each of the three operations rounded\<close>
  "push_low r x = radd x (radd (rsub (Num r) x) (Num 1))"

definition push_high :: "real \<Rightarrow> val \<Rightarrow> val" where
  \<comment> \<open>the new coordinate of \<open>x += (size - radius) - x - 1\<close>, that is
      \<open>x + (((size - radius) - x) - 1)\<close>, with \<open>b\<close> for the bound \<open>size - radius\<close>\<close>
  "push_high b x = radd x (rsub (rsub (Num b) x) (Num 1))"

definition rebound_axis :: "config \<Rightarrow> nat \<Rightarrow> state \<Rightarrow> state" where
  \<comment> \<open>the body of \<open>for i in range(2)\<close>: both masks are computed first, then the velocity
      and the position of the rows of \<open>out_of_bounds_min\<close> are written, then those of the
      rows of \<open>out_of_bounds_max\<close>; \<open>a += b\<close> is \<open>a = a + b\<close> on the masked rows. The
      bound \<open>size - radius\<close>, which the source computes for the mask and again for the
      update, is the real difference in both places: it is a float64 value for the 700 by
      700 canvas and every radius between 0 and 700 that is a multiple of \<open>2^(-43)\<close>\<close>
  "rebound_axis cfg i st =
    (let size = [w cfg, h cfg] ! i;
         out_of_bounds_min = map (\<lambda>p. flt (coord i (pos p)) (Num (radius cfg))) st;
         out_of_bounds_max = map (\<lambda>p. flt (Num (size - radius cfg)) (coord i (pos p))) st;
         st1 = (if 0 < length (filter id out_of_bounds_min)
                then masked_update out_of_bounds_min
                       (\<lambda>p. p\<lparr>pos := set_coord i (push_low (radius cfg) (coord i (pos p)))
                                (pos p)\<rparr>)
                       (masked_update out_of_bounds_min
                          (\<lambda>p. p\<lparr>vel := set_coord i (fneg (coord i (vel p))) (vel p)\<rparr>) st)
                else st)
     in if 0 < length (filter id out_of_bounds_max)
        then masked_update out_of_bounds_max
               (\<lambda>p. p\<lparr>pos := set_coord i (push_high (size - radius cfg) (coord i (pos p)))
                        (pos p)\<rparr>)
               (masked_update out_of_bounds_max
                  (\<lambda>p. p\<lparr>vel := set_coord i (fneg (coord i (vel p))) (vel p)\<rparr>) st1)
        else st1)"

definition rebound :: "config \<Rightarrow> state \<Rightarrow> state" where
  \<comment> \<open>\<open>for i in range(2)\<close>\<close>
  "rebound cfg st = fold (rebound_axis cfg) [0, 1] st"

definition step :: "config \<Rightarrow> real \<Rightarrow> state \<Rightarrow> state" where
  "step cfg time_step st = rebound cfg (collide cfg (advance time_step st))"

section \<open>The matching, as the specification words it\<close>

text \<open>
  The reference against which the detector is compared: the colliding pairs \<open>i < j\<close>
  in enumeration order (\<open>i\<close> ascending, then \<open>j\<close> ascending), then three filters.
  \<open>keep_first key\<close> keeps a pair and drops the later pairs that share its key.
\<close>

fun keep_first :: "('a \<Rightarrow> nat) \<Rightarrow> 'a list \<Rightarrow> 'a list" where
  "keep_first key [] = []"
| "keep_first key (p # ps) = p # keep_first key (filter (\<lambda>q. key q \<noteq> key p) ps)"

definition enumerate_pairs :: "nat \<Rightarrow> (nat \<times> nat) list" where
  "enumerate_pairs n = [(i, j). i \<leftarrow> [0..<n], j \<leftarrow> [0..<n], i < j]"

definition matching_ref :: "real \<Rightarrow> state \<Rightarrow> (nat \<times> nat) list" where
  "matching_ref r st =
    (let colliding = filter (\<lambda>(i, j). fle (euclidean (pos (st ! i)) (pos (st ! j))) (Num (2 * r)))
                       (enumerate_pairs (length st));
         stage_1 = keep_first fst colliding;
         stage_2 = keep_first snd stage_1
     in filter (\<lambda>(i, j). i \<notin> set (map snd stage_2)) stage_2)"

section \<open>The detector on a list of pairs\<close>

text \<open>
  The detector carries two parallel index arrays. For the proofs the same computation
  is read on one list of pairs.
\<close>

definition raw_pairs :: "real \<Rightarrow> state \<Rightarrow> (nat \<times> nat) list" where
  "raw_pairs r st =
     filter (\<lambda>(i, j). fle (euclidean (pos (st ! i)) (pos (st ! j))) (Num (2 * r)))
       (triu_indices (length st))"

definition detect_pairs :: "real \<Rightarrow> state \<Rightarrow> (nat \<times> nat) list" where
  "detect_pairs r st =
    (let ps = raw_pairs r st;
         ps1 = int_index ps (unique_index (map fst ps));
         ps2 = int_index ps1 (unique_index (map snd ps1))
     in filter (\<lambda>p. fst p \<notin> set (map snd ps2)) ps2)"

section \<open>The resolver on one pair\<close>

text \<open>
  What the resolver adds to the velocities and to the positions of one matched pair
  \<open>(p, q)\<close>: the row of \<open>(scalar_product / pos_diff_norm ** 2) * pos_diff\<close> and the row
  of \<open>0.5 * ((2 * radius / pos_diff_norm) - 1) * pos_diff\<close>.
\<close>

definition pair_dv :: "particle \<Rightarrow> particle \<Rightarrow> vec" where
  "pair_dv p q =
    (let pos_diff = vec_sub (pos q) (pos p);
         scalar_product = einsum_dot (vec_sub (vel p) (vel q)) pos_diff;
         pos_diff_norm = norm_row pos_diff
     in scale (fdiv scalar_product (fmul pos_diff_norm pos_diff_norm)) pos_diff)"

definition pair_dp :: "real \<Rightarrow> particle \<Rightarrow> particle \<Rightarrow> vec" where
  "pair_dp r p q =
    (let pos_diff = vec_sub (pos q) (pos p);
         pos_diff_norm = norm_row pos_diff
     in scale (fmul (Num (1/2)) (fsub (fdiv (Num (2 * r)) pos_diff_norm) (Num 1))) pos_diff)"

section \<open>The reflector on one particle\<close>

text \<open>
  The two masked updates of one axis, read on a single row. Both masks are computed
  before either update, so both tests look at the coordinate the particle had when the
  loop body started.
\<close>

definition reflect_low :: "config \<Rightarrow> nat \<Rightarrow> particle \<Rightarrow> particle" where
  "reflect_low cfg i p =
     (p\<lparr>vel := set_coord i (fneg (coord i (vel p))) (vel p)\<rparr>)
      \<lparr>pos := set_coord i (push_low (radius cfg) (coord i (pos p))) (pos p)\<rparr>"

definition reflect_high :: "config \<Rightarrow> nat \<Rightarrow> particle \<Rightarrow> particle" where
  "reflect_high cfg i p =
     (p\<lparr>vel := set_coord i (fneg (coord i (vel p))) (vel p)\<rparr>)
      \<lparr>pos := set_coord i
         (push_high ([w cfg, h cfg] ! i - radius cfg) (coord i (pos p))) (pos p)\<rparr>"

definition reflect_particle :: "config \<Rightarrow> nat \<Rightarrow> particle \<Rightarrow> particle" where
  "reflect_particle cfg i p =
     (let p1 = (if flt (coord i (pos p)) (Num (radius cfg)) then reflect_low cfg i p else p)
      in if flt (Num ([w cfg, h cfg] ! i - radius cfg)) (coord i (pos p))
         then reflect_high cfg i p1 else p1)"

section \<open>Quantities of the properties\<close>

text \<open>
  The squared length of a velocity, and the midpoint of two positions.
\<close>

definition sq_norm :: "vec \<Rightarrow> val" where
  "sq_norm v = fadd (fmul (fst v) (fst v)) (fmul (snd v) (snd v))"

definition midpoint :: "vec \<Rightarrow> vec \<Rightarrow> vec" where
  "midpoint u v = scale (Num (1/2)) (vec_add u v)"

section \<open>Scenarios\<close>

text \<open>
  The canvas of the program is 700 by 700; the radius is read from the user. The states
  below are the scenarios of the specification and the inputs at which the theorems are
  evaluated.
\<close>

definition canvas :: "real \<Rightarrow> config" where
  "canvas r = \<lparr>w = 700, h = 700, radius = r\<rparr>"

definition head_on :: state where
  "head_on = [\<lparr>pos = (Num 10, Num 50), vel = (Num 5, Num 0)\<rparr>,
              \<lparr>pos = (Num 16, Num 50), vel = (Num (- 5), Num 0)\<rparr>]"


definition oblique :: state where
  "oblique = [\<lparr>pos = (Num 10, Num 50), vel = (Num 5, Num 0)\<rparr>,
              \<lparr>pos = (Num 13, Num 54), vel = (Num (- 5), Num 0)\<rparr>]"

definition bystander :: state where
  "bystander = [\<lparr>pos = (Num 10, Num 50), vel = (Num 5, Num 0)\<rparr>,
                \<lparr>pos = (Num 16, Num 50), vel = (Num (- 5), Num 0)\<rparr>,
                \<lparr>pos = (Num 100, Num 50), vel = (Num 0, Num 0)\<rparr>]"

definition overlap :: state where
  "overlap = [\<lparr>pos = (Num 10, Num 50), vel = (Num 0, Num 0)\<rparr>,
              \<lparr>pos = (Num 10, Num 50), vel = (Num 0, Num 0)\<rparr>]"



definition at_rest :: state where
  "at_rest = [\<lparr>pos = (Num 10, Num 50), vel = (Num 0, Num 0)\<rparr>,
              \<lparr>pos = (Num 100, Num 50), vel = (Num 0, Num 0)\<rparr>]"

definition crowded :: state where
  "crowded = [\<lparr>pos = (Num 10, Num 50), vel = (Num 0, Num 0)\<rparr>,
              \<lparr>pos = (Num 13, Num 54), vel = (Num 0, Num 0)\<rparr>]"

definition at_wall :: state where
  "at_wall = [\<lparr>pos = (Num 2, Num 50), vel = (Num 0, Num 0)\<rparr>]"

section \<open>Indexing lemmas\<close>

lemma bool_index_map: "bool_index (map f xs) (map P xs) = map f (filter P xs)"
  by (induction xs) (simp_all add: bool_index_def)

lemma first_index_less: "v \<in> set xs \<Longrightarrow> first_index xs v < length xs"
  by (induction xs) auto

lemma first_index_nth: "v \<in> set xs \<Longrightarrow> xs ! first_index xs v = v"
  by (induction xs) auto

lemma first_index_find:
  "v \<in> key ` set ps \<Longrightarrow> find (\<lambda>q. key q = v) ps = Some (ps ! first_index (map key ps) v)"
  by (induction ps) auto

lemma set_keep_first_subset: "set (keep_first key ps) \<subseteq> set ps"
  by (induction key ps rule: keep_first.induct) auto

lemma keys_keep_first: "key ` set (keep_first key ps) = key ` set ps"
  by (induction key ps rule: keep_first.induct) auto

lemma distinct_keep_first: "distinct (map key (keep_first key ps))"
proof (induction key ps rule: keep_first.induct)
  case (1 key)
  then show ?case by simp
next
  case (2 key a ps)
  have "key a \<notin> key ` set (filter (\<lambda>q. key q \<noteq> key a) ps)" by auto
  then have "key a \<notin> key ` set (keep_first key (filter (\<lambda>q. key q \<noteq> key a) ps))"
    unfolding keys_keep_first .
  with 2 show ?case by simp
qed

lemma find_filter_neq: "v \<noteq> k \<Longrightarrow> find (\<lambda>q. key q = v) (filter (\<lambda>q. key q \<noteq> k) ps) = find (\<lambda>q. key q = v) ps"
  by (induction ps) auto

lemma keep_first_find:
  "p \<in> set (keep_first key ps) \<Longrightarrow> find (\<lambda>q. key q = key p) ps = Some p"
proof (induction key ps rule: keep_first.induct)
  case (1 key)
  then show ?case by simp
next
  case (2 key a ps)
  show ?case
  proof (cases "p = a")
    case True
    then show ?thesis by simp
  next
    case False
    with 2(2) have in': "p \<in> set (keep_first key (filter (\<lambda>q. key q \<noteq> key a) ps))" by simp
    then have "p \<in> set (filter (\<lambda>q. key q \<noteq> key a) ps)" by (rule subsetD[OF set_keep_first_subset])
    then have ne: "key p \<noteq> key a" by simp
    have "find (\<lambda>q. key q = key p) (filter (\<lambda>q. key q \<noteq> key a) ps) = Some p"
      by (rule 2(1)[OF in'])
    with ne show ?thesis by (simp add: find_filter_neq)
  qed
qed

lemma sorted_keep_first: "sorted (map key ps) \<Longrightarrow> sorted (map key (keep_first key ps))"
proof (induction key ps rule: keep_first.induct)
  case (1 key)
  then show ?case by simp
next
  case (2 key a ps)
  from 2(2) have le: "\<And>x. x \<in> set ps \<Longrightarrow> key a \<le> key x" and sps: "sorted (map key ps)"
    by simp_all
  have s: "sorted (map key (filter (\<lambda>q. key q \<noteq> key a) ps))"
    using sps by (simp add: sorted_map sorted_wrt_filter)
  have "\<And>x. x \<in> set (keep_first key (filter (\<lambda>q. key q \<noteq> key a) ps)) \<Longrightarrow> key a \<le> key x"
  proof -
    fix x assume "x \<in> set (keep_first key (filter (\<lambda>q. key q \<noteq> key a) ps))"
    then have "x \<in> set (filter (\<lambda>q. key q \<noteq> key a) ps)"
      by (rule subsetD[OF set_keep_first_subset])
    then have "x \<in> set ps" by simp
    then show "key a \<le> key x" by (rule le)
  qed
  moreover have "sorted (map key (keep_first key (filter (\<lambda>q. key q \<noteq> key a) ps)))"
    by (rule 2(1)[OF s])
  ultimately show ?case by (simp del: keep_first.simps add: keep_first.simps(2)[of key a ps])
qed

lemma filter_less_upt: "filter (\<lambda>j. i < j) [0..<n] = [Suc i..<n]"
  by (induction n) auto

lemma triu_indices_enumerate: "triu_indices n = enumerate_pairs n"
proof -
  have "\<And>i. concat (map (\<lambda>j. if i < j then [(i, j)] else []) [0..<n]) = map (Pair i) [Suc i..<n]"
  proof -
    fix i
    have "concat (map (\<lambda>j. if i < j then [(i, j)] else []) [0..<n])
          = map (Pair i) (filter (\<lambda>j. i < j) [0..<n])"
      by (induction n) auto
    then show "concat (map (\<lambda>j. if i < j then [(i, j)] else []) [0..<n]) = map (Pair i) [Suc i..<n]"
      by (simp only: filter_less_upt)
  qed
  then show ?thesis by (simp add: triu_indices_def enumerate_pairs_def)
qed

lemma triu_indices_range: "(i, j) \<in> set (triu_indices n) \<Longrightarrow> i < j \<and> j < n"
  by (auto simp: triu_indices_def)

lemma sorted_const_map: "sorted (map (\<lambda>_. c::nat) xs)"
  by (induction xs) auto

lemma fst_concat_pairs_subset:
  "x \<in> set (map fst (concat (map (\<lambda>i. map (Pair i) (g i)) js))) \<Longrightarrow> x \<in> set js"
  by (induction js) auto

lemma sorted_fst_concat:
  "sorted (js :: nat list) \<Longrightarrow> sorted (map fst (concat (map (\<lambda>i. map (Pair i) (g i)) js)))"
proof (induction js)
  case Nil
  then show ?case by simp
next
  case (Cons i js)
  define R where "R = map fst (concat (map (\<lambda>i. map (Pair i) (g i)) js))"
  have eq: "map fst (concat (map (\<lambda>i. map (Pair i) (g i)) (i # js))) = map (\<lambda>_. i) (g i) @ R"
    by (simp add: R_def comp_def)
  from Cons.prems have le: "\<And>x. x \<in> set js \<Longrightarrow> i \<le> x" and sjs: "sorted js" by simp_all
  have sR: "sorted R" unfolding R_def by (rule Cons.IH[OF sjs])
  have "\<And>y. y \<in> set R \<Longrightarrow> i \<le> y"
    unfolding R_def by (rule le, rule fst_concat_pairs_subset)
  then have "\<forall>x\<in>set (map (\<lambda>_. i) (g i)). \<forall>y\<in>set R. x \<le> y" by simp
  with sR sorted_const_map[of i "g i"] show ?case unfolding eq sorted_append by (intro conjI)
qed

lemma sorted_fst_triu: "sorted (map fst (triu_indices n))"
  unfolding triu_indices_def by (rule sorted_fst_concat) simp

lemma sorted_fst_raw: "sorted (map fst (raw_pairs r st))"
  unfolding raw_pairs_def using sorted_fst_triu[of "length st"]
  by (simp add: sorted_map sorted_wrt_filter)

lemma is_colliding_eq:
  "map (\<lambda>d. fle d R) (pdist (map pos st))
   = map (\<lambda>(i, j). fle (euclidean (pos (st ! i)) (pos (st ! j))) R) (triu_indices (length st))"
proof -
  have "\<And>p. p \<in> set (triu_indices (length st)) \<Longrightarrow>
          (case p of (i, j) \<Rightarrow> fle (euclidean (map pos st ! i) (map pos st ! j)) R)
        = (case p of (i, j) \<Rightarrow> fle (euclidean (pos (st ! i)) (pos (st ! j))) R)"
  proof -
    fix p assume a: "p \<in> set (triu_indices (length st))"
    obtain i j where p: "p = (i, j)" by (cases p)
    from a have "i < j \<and> j < length st" unfolding p by (rule triu_indices_range)
    then have "i < length st" "j < length st" by simp_all
    then show "(case p of (i, j) \<Rightarrow> fle (euclidean (map pos st ! i) (map pos st ! j)) R)
        = (case p of (i, j) \<Rightarrow> fle (euclidean (pos (st ! i)) (pos (st ! j))) R)"
      by (simp add: p)
  qed
  then show ?thesis
    by (simp add: pdist_def comp_def split_def cong: map_cong)
qed

lemma int_index_map:
  "(\<And>k. k \<in> set idx \<Longrightarrow> k < length xs) \<Longrightarrow> int_index (map f xs) idx = map f (int_index xs idx)"
  by (simp add: int_index_def)

lemma unique_index_range: "k \<in> set (unique_index xs) \<Longrightarrow> k < length xs"
  by (auto simp: unique_index_def first_index_less)

lemma int_index_unique: "int_index xs (unique_index xs) = sort (remdups xs)"
proof -
  have "map (\<lambda>v. xs ! first_index xs v) (sort (remdups xs)) = map (\<lambda>v. v) (sort (remdups xs))"
    by (rule map_cong) (simp_all add: first_index_nth)
  then show ?thesis by (simp add: int_index_def unique_index_def comp_def)
qed

lemma int_index_unique_find:
  "int_index ps (unique_index (map key ps))
   = map (\<lambda>v. the (find (\<lambda>q. key q = v) ps)) (sort (remdups (map key ps)))"
proof -
  have "map (\<lambda>v. ps ! first_index (map key ps) v) (sort (remdups (map key ps)))
        = map (\<lambda>v. the (find (\<lambda>q. key q = v) ps)) (sort (remdups (map key ps)))"
    by (rule map_cong) (simp_all add: first_index_find)
  then show ?thesis by (simp add: int_index_def unique_index_def comp_def)
qed

lemma keep_first_as_find:
  "keep_first key ps = map (\<lambda>v. the (find (\<lambda>q. key q = v) ps)) (map key (keep_first key ps))"
proof -
  have "map (\<lambda>p. the (find (\<lambda>q. key q = key p) ps)) (keep_first key ps) = keep_first key ps"
    by (rule map_idI) (simp add: keep_first_find)
  then show ?thesis by (simp add: comp_def)
qed

lemma set_int_index_unique:
  "set (int_index ps (unique_index (map key ps))) = set (keep_first key ps)"
proof -
  have "set (keep_first key ps)
        = (\<lambda>v. the (find (\<lambda>q. key q = v) ps)) ` (key ` set (keep_first key ps))"
    using arg_cong[OF keep_first_as_find[of key ps], of set] by (simp only: set_map)
  also have "\<dots> = (\<lambda>v. the (find (\<lambda>q. key q = v) ps)) ` (key ` set ps)"
    by (simp only: keys_keep_first)
  finally show ?thesis
    by (simp only: int_index_unique_find set_map set_sort set_remdups)
qed

lemma sorted_int_index_unique:
  assumes "sorted (map key ps)"
  shows "int_index ps (unique_index (map key ps)) = keep_first key ps"
proof -
  have "map key (keep_first key ps) = sort (remdups (map key ps))"
  proof (rule sorted_distinct_set_unique)
    show "sorted (map key (keep_first key ps))" using assms by (rule sorted_keep_first)
    show "distinct (map key (keep_first key ps))" by (rule distinct_keep_first)
    show "sorted (sort (remdups (map key ps)))" by simp
    show "distinct (sort (remdups (map key ps)))" by simp
    show "set (map key (keep_first key ps)) = set (sort (remdups (map key ps)))"
      by (simp add: keys_keep_first)
  qed
  then show ?thesis
    using keep_first_as_find[of key ps] by (simp only: int_index_unique_find)
qed

lemma int_index_unique_map:
  "int_index (map f ps) (unique_index (map key ps)) = map f (int_index ps (unique_index (map key ps)))"
proof (rule int_index_map)
  fix k assume "k \<in> set (unique_index (map key ps))"
  then have "k < length (map key ps)" by (rule unique_index_range)
  then show "k < length ps" by simp
qed

lemma detect_eq: "detect r st = (map fst (detect_pairs r st), map snd (detect_pairs r st))"
proof -
  define ps where "ps = raw_pairs r st"
  define ps1 where "ps1 = int_index ps (unique_index (map fst ps))"
  define ps2 where "ps2 = int_index ps1 (unique_index (map snd ps1))"
  define T where "T = triu_indices (length st)"
  define P where "P = (\<lambda>(i, j). fle (euclidean (pos (st ! i)) (pos (st ! j))) (Num (2 * r)))"
  have col: "map (\<lambda>d. fle d (Num (2 * r))) (pdist (map pos st)) = map P T"
    unfolding P_def T_def by (rule is_colliding_eq)
  have c1: "bool_index (map fst T) (map P T) = map fst ps"
    and c2: "bool_index (map snd T) (map P T) = map snd ps"
    unfolding ps_def raw_pairs_def P_def T_def by (rule bool_index_map)+
  have c1': "int_index (map fst ps) (unique_index (map fst ps)) = map fst ps1"
    and c2': "int_index (map snd ps) (unique_index (map fst ps)) = map snd ps1"
    unfolding ps1_def by (rule int_index_unique_map)+
  have c1'': "int_index (map fst ps1) (unique_index (map snd ps1)) = map fst ps2"
    and c2'': "int_index (map snd ps1) (unique_index (map snd ps1)) = map snd ps2"
    unfolding ps2_def by (rule int_index_unique_map)+
  have m: "in1d_invert (map fst ps2) (map snd ps2) = map (\<lambda>p. fst p \<notin> set (map snd ps2)) ps2"
    by (simp add: in1d_invert_def comp_def)
  have dp: "detect_pairs r st = filter (\<lambda>p. fst p \<notin> set (map snd ps2)) ps2"
    by (simp only: detect_pairs_def Let_def ps_def ps1_def ps2_def)
  have "detect r st = (bool_index (map fst ps2) (map (\<lambda>p. fst p \<notin> set (map snd ps2)) ps2),
                       bool_index (map snd ps2) (map (\<lambda>p. fst p \<notin> set (map snd ps2)) ps2))"
    unfolding detect_def Let_def col T_def[symmetric] c1 c2 c1' c2' c1'' c2'' m ..
  then show ?thesis by (simp only: bool_index_map dp)
qed

lemma first_index_inj: "u \<in> set xs \<Longrightarrow> v \<in> set xs \<Longrightarrow> first_index xs u = first_index xs v \<Longrightarrow> u = v"
  using first_index_nth by metis

lemma distinct_unique_index: "distinct (unique_index xs)"
proof -
  have "inj_on (first_index xs) (set (sort (remdups xs)))"
    by (rule inj_onI) (simp add: first_index_inj)
  then show ?thesis by (simp add: unique_index_def distinct_map)
qed

lemma distinct_int_index:
  assumes "distinct xs" "distinct idx" "\<And>k. k \<in> set idx \<Longrightarrow> k < length xs"
  shows "distinct (int_index xs idx)"
proof -
  have "inj_on (\<lambda>k. xs ! k) (set idx)"
  proof (rule inj_onI)
    fix a b assume "a \<in> set idx" "b \<in> set idx" "xs ! a = xs ! b"
    with assms(1,3) show "a = b" by (simp add: nth_eq_iff_index_eq)
  qed
  with assms(2) show ?thesis by (simp add: int_index_def distinct_map)
qed

lemma detect_pairs_distinct: "distinct (map fst (detect_pairs r st) @ map snd (detect_pairs r st))"
proof -
  define ps where "ps = raw_pairs r st"
  define ps1 where "ps1 = int_index ps (unique_index (map fst ps))"
  define ps2 where "ps2 = int_index ps1 (unique_index (map snd ps1))"
  define ps3 where "ps3 = filter (\<lambda>p. fst p \<notin> set (map snd ps2)) ps2"
  have dp: "detect_pairs r st = ps3"
    by (simp only: detect_pairs_def Let_def ps_def ps1_def ps2_def ps3_def)
  have "map fst ps1 = sort (remdups (map fst ps))"
    unfolding ps1_def int_index_unique_map[symmetric] by (rule int_index_unique)
  then have d1: "distinct (map fst ps1)" by simp
  have "map snd ps2 = sort (remdups (map snd ps1))"
    unfolding ps2_def int_index_unique_map[symmetric] by (rule int_index_unique)
  then have d2: "distinct (map snd ps2)" by simp
  have "map fst ps2 = int_index (map fst ps1) (unique_index (map snd ps1))"
    unfolding ps2_def by (rule int_index_unique_map[symmetric])
  moreover have "distinct (int_index (map fst ps1) (unique_index (map snd ps1)))"
  proof (rule distinct_int_index[OF d1 distinct_unique_index])
    fix k assume "k \<in> set (unique_index (map snd ps1))"
    then have "k < length (map snd ps1)" by (rule unique_index_range)
    then show "k < length (map fst ps1)" by simp
  qed
  ultimately have d3: "distinct (map fst ps2)" by simp
  have f1: "distinct (map fst ps3)" unfolding ps3_def using d3 by (rule distinct_map_filter)
  have f2: "distinct (map snd ps3)" unfolding ps3_def using d2 by (rule distinct_map_filter)
  have "set (map snd ps3) \<subseteq> set (map snd ps2)" unfolding ps3_def by auto
  moreover have "\<And>a. a \<in> set (map fst ps3) \<Longrightarrow> a \<notin> set (map snd ps2)"
    unfolding ps3_def by auto
  ultimately have "set (map fst ps3) \<inter> set (map snd ps3) = {}" by blast
  with f1 f2 show ?thesis unfolding dp by simp
qed

text \<open>
  C1. In the matching that the three filters of the detector leave, no particle index
  occurs twice: not twice as a first index, not twice as a second index, and not as the
  first index of one pair and the second index of a pair. This holds for every state, so
  for the state after the integration of every tick.
\<close>

theorem matching_no_index_twice:
  "distinct (fst (detect r st) @ snd (detect r st))"
  unfolding detect_eq fst_conv snd_conv by (rule detect_pairs_distinct)

lemma detect_pairs_ref: "set (detect_pairs r st) = set (matching_ref r st)"
proof -
  define ps where "ps = raw_pairs r st"
  define ps1 where "ps1 = int_index ps (unique_index (map fst ps))"
  define ps2 where "ps2 = int_index ps1 (unique_index (map snd ps1))"
  define s2 where "s2 = keep_first snd (keep_first fst ps)"
  have dp: "detect_pairs r st = filter (\<lambda>p. fst p \<notin> set (map snd ps2)) ps2"
    by (simp only: detect_pairs_def Let_def ps_def ps1_def ps2_def)
  have ps': "ps = filter (\<lambda>(i, j). fle (euclidean (pos (st ! i)) (pos (st ! j))) (Num (2 * r)))
                       (enumerate_pairs (length st))"
    by (simp only: ps_def raw_pairs_def triu_indices_enumerate)
  have mr: "matching_ref r st = filter (\<lambda>p. fst p \<notin> set (map snd s2)) s2"
    by (simp add: matching_ref_def Let_def ps' s2_def split_def)
  have "sorted (map fst ps)" unfolding ps_def by (rule sorted_fst_raw)
  then have "ps1 = keep_first fst ps" unfolding ps1_def by (rule sorted_int_index_unique)
  then have "set ps2 = set s2" unfolding ps2_def s2_def by (simp only: set_int_index_unique)
  then show ?thesis unfolding dp mr by (simp only: set_filter set_map)
qed

text \<open>
  C5. The pairs that survive the detector are, as a set, the pairs of the reference
  definition \<open>matching_ref\<close>: the colliding pairs in enumeration order, for each first
  index the first pair kept, then for each second index the first pair kept, then every
  pair dropped whose first index is a second index of a survivor of the second filter.
  The two index arrays of the detector have the same length, so zipping them loses no
  pair.
\<close>

theorem matching_refines_reference:
  "set (zip (fst (detect r st)) (snd (detect r st))) = set (matching_ref r st)
   \<and> length (fst (detect r st)) = length (snd (detect r st))"
  unfolding detect_eq fst_conv snd_conv by (simp add: zip_map_fst_snd detect_pairs_ref)

section \<open>The resolver\<close>

lemma assign_rows_length: "length (assign_rows upd idx vals xs) = length xs"
proof -
  have "length (fold (\<lambda>(k, v) s. s[k := upd v (s ! k)]) zs xs) = length xs" for zs
    by (induction zs arbitrary: xs) (simp_all add: split_def)
  then show ?thesis by (simp add: assign_rows_def)
qed

lemma assign_rows_Cons:
  "assign_rows upd (i # idx) (v # vals) xs = assign_rows upd idx vals (xs[i := upd v (xs ! i)])"
  by (simp add: assign_rows_def)

lemma assign_rows_Nil: "assign_rows upd [] vals xs = xs" "assign_rows upd idx [] xs = xs"
  by (simp_all add: assign_rows_def)

lemma assign_rows_other: "k \<notin> set idx \<Longrightarrow> assign_rows upd idx vals xs ! k = xs ! k"
proof (induction idx arbitrary: vals xs)
  case Nil
  then show ?case by (simp add: assign_rows_Nil)
next
  case (Cons i idx)
  show ?case
  proof (cases vals)
    case Nil
    then show ?thesis by (simp add: assign_rows_Nil)
  next
    case (Cons v vals')
    from Cons.prems have "k \<noteq> i" "k \<notin> set idx" by simp_all
    then show ?thesis
      unfolding Cons assign_rows_Cons by (simp add: Cons.IH)
  qed
qed

lemma assign_rows_hit:
  "distinct idx \<Longrightarrow> length vals = length idx \<Longrightarrow> m < length idx \<Longrightarrow> idx ! m < length xs
   \<Longrightarrow> assign_rows upd idx vals xs ! (idx ! m) = upd (vals ! m) (xs ! (idx ! m))"
proof (induction idx arbitrary: vals xs m)
  case Nil
  then show ?case by simp
next
  case (Cons i idx)
  from Cons.prems(2) obtain v vals' where vals: "vals = v # vals'" by (cases vals) simp_all
  from Cons.prems(1) have ni: "i \<notin> set idx" and d: "distinct idx" by simp_all
  show ?case
  proof (cases m)
    case 0
    with Cons.prems(4) have "i < length xs" by simp
    then show ?thesis
      unfolding vals assign_rows_Cons 0 by (simp add: assign_rows_other[OF ni])
  next
    case (Suc m')
    with Cons.prems(3) have m': "m' < length idx" by simp
    then have "idx ! m' \<in> set idx" by simp
    with ni have ne: "idx ! m' \<noteq> i" by auto
    from Cons.prems(2) vals have len: "length vals' = length idx" by simp
    from Cons.prems(4) Suc have r: "idx ! m' < length (xs[i := upd v (xs ! i)])" by simp
    show ?thesis
      unfolding vals assign_rows_Cons Suc using ne
      by (simp add: Cons.IH[OF d len m' r])
  qed
qed

lemma resolve_length: "length (resolve r c1 c2 st) = length st"
  by (simp add: resolve_def Let_def assign_vel_def assign_pos_def assign_rows_length)

lemma resolve_other:
  "k \<notin> set c1 \<Longrightarrow> k \<notin> set c2 \<Longrightarrow> resolve r c1 c2 st ! k = st ! k"
  by (simp add: resolve_def Let_def assign_vel_def assign_pos_def assign_rows_other)

lemma resolve_hit:
  assumes d: "distinct (c1 @ c2)" and len: "length c1 = length c2"
    and rng: "\<And>k. k \<in> set (c1 @ c2) \<Longrightarrow> k < length st" and m: "m < length c1"
  shows "resolve r c1 c2 st ! (c1 ! m)
         = \<lparr>pos = vec_sub (pos (st ! (c1 ! m))) (pair_dp r (st ! (c1 ! m)) (st ! (c2 ! m))),
            vel = vec_sub (vel (st ! (c1 ! m))) (pair_dv (st ! (c1 ! m)) (st ! (c2 ! m)))\<rparr>"
    and "resolve r c1 c2 st ! (c2 ! m)
         = \<lparr>pos = vec_add (pos (st ! (c2 ! m))) (pair_dp r (st ! (c1 ! m)) (st ! (c2 ! m))),
            vel = vec_add (vel (st ! (c2 ! m))) (pair_dv (st ! (c1 ! m)) (st ! (c2 ! m)))\<rparr>"
proof -
  define a where "a = c1 ! m"
  define b where "b = c2 ! m"
  define pos_1 where "pos_1 = map (\<lambda>k. pos (st ! k)) c1"
  define pos_2 where "pos_2 = map (\<lambda>k. pos (st ! k)) c2"
  define vel_1 where "vel_1 = map (\<lambda>k. vel (st ! k)) c1"
  define vel_2 where "vel_2 = map (\<lambda>k. vel (st ! k)) c2"
  define pos_diff where "pos_diff = map2 vec_sub pos_2 pos_1"
  define dv where "dv = map2 scale (map2 (\<lambda>s n. fdiv s (fmul n n))
      (map2 einsum_dot (map2 vec_sub vel_1 vel_2) pos_diff) (map norm_row pos_diff)) pos_diff"
  define dp where "dp = map2 scale
      (map (\<lambda>n. fmul (Num (1/2)) (fsub (fdiv (Num (2 * r)) n) (Num 1))) (map norm_row pos_diff))
      pos_diff"
  define V1 where "V1 = map2 vec_sub vel_1 dv"
  define V2 where "V2 = map2 vec_add vel_2 dv"
  define P1 where "P1 = map2 vec_sub pos_1 dp"
  define P2 where "P2 = map2 vec_add pos_2 dp"
  define st1 where "st1 = assign_vel c1 V1 st"
  define st2 where "st2 = assign_vel c2 V2 st1"
  define st3 where "st3 = assign_pos c1 P1 st2"
  define st4 where "st4 = assign_pos c2 P2 st3"
  from m have ne: "c1 \<noteq> []" by auto
  have res: "resolve r c1 c2 st = st4"
    unfolding resolve_def Let_def st4_def st3_def st2_def st1_def P1_def P2_def V1_def V2_def
      dp_def dv_def pos_diff_def pos_1_def pos_2_def vel_1_def vel_2_def
    using ne by simp
  from m len have m2: "m < length c2" by simp
  have lens: "length V1 = length c1" "length V2 = length c2" "length P1 = length c1"
    "length P2 = length c2"
    by (simp_all add: V1_def V2_def P1_def P2_def dv_def dp_def pos_diff_def pos_1_def pos_2_def
        vel_1_def vel_2_def len)
  have dvm: "dv ! m = pair_dv (st ! a) (st ! b)"
    using m m2 by (simp add: dv_def pos_diff_def pos_1_def pos_2_def vel_1_def vel_2_def
        pair_dv_def Let_def a_def b_def)
  have dpm: "dp ! m = pair_dp r (st ! a) (st ! b)"
    using m m2 by (simp add: dp_def pos_diff_def pos_1_def pos_2_def pair_dp_def Let_def a_def b_def)
  have V1m: "V1 ! m = vec_sub (vel (st ! a)) (pair_dv (st ! a) (st ! b))"
    using m m2 dvm by (simp add: V1_def vel_1_def a_def dv_def pos_diff_def pos_1_def pos_2_def vel_2_def)
  have V2m: "V2 ! m = vec_add (vel (st ! b)) (pair_dv (st ! a) (st ! b))"
    using m m2 dvm by (simp add: V2_def vel_2_def b_def dv_def pos_diff_def pos_1_def pos_2_def vel_1_def)
  have P1m: "P1 ! m = vec_sub (pos (st ! a)) (pair_dp r (st ! a) (st ! b))"
    using m m2 dpm by (simp add: P1_def a_def dp_def pos_diff_def pos_1_def pos_2_def)
  have P2m: "P2 ! m = vec_add (pos (st ! b)) (pair_dp r (st ! a) (st ! b))"
    using m m2 dpm by (simp add: P2_def b_def dp_def pos_diff_def pos_1_def pos_2_def)
  from d have d1: "distinct c1" and d2: "distinct c2" and dis: "set c1 \<inter> set c2 = {}" by simp_all
  from m have a1: "a \<in> set c1" by (simp add: a_def)
  from m2 have b2: "b \<in> set c2" by (simp add: b_def)
  from a1 dis have a2: "a \<notin> set c2" by auto
  from b2 dis have b1: "b \<notin> set c1" by auto
  from a1 rng have ar: "a < length st" by simp
  from b2 rng have br: "b < length st" by simp
  have l1: "length st1 = length st" and l2: "length st2 = length st" and l3: "length st3 = length st"
    by (simp_all add: st1_def st2_def st3_def assign_vel_def assign_pos_def assign_rows_length)
  have "st1 ! a = (st ! a)\<lparr>vel := V1 ! m\<rparr>"
    unfolding st1_def assign_vel_def a_def
    by (rule assign_rows_hit[OF d1 lens(1) m]) (use ar in \<open>simp add: a_def\<close>)
  then have "st2 ! a = (st ! a)\<lparr>vel := V1 ! m\<rparr>"
    unfolding st2_def assign_vel_def by (simp add: assign_rows_other[OF a2])
  moreover have "st3 ! a = (st2 ! a)\<lparr>pos := P1 ! m\<rparr>"
    unfolding st3_def assign_pos_def a_def
    by (rule assign_rows_hit[OF d1 lens(3) m]) (use ar l2 in \<open>simp add: a_def\<close>)
  ultimately have "st4 ! a = (st ! a)\<lparr>vel := V1 ! m, pos := P1 ! m\<rparr>"
    unfolding st4_def assign_pos_def by (simp add: assign_rows_other[OF a2])
  then show "resolve r c1 c2 st ! (c1 ! m)
         = \<lparr>pos = vec_sub (pos (st ! (c1 ! m))) (pair_dp r (st ! (c1 ! m)) (st ! (c2 ! m))),
            vel = vec_sub (vel (st ! (c1 ! m))) (pair_dv (st ! (c1 ! m)) (st ! (c2 ! m)))\<rparr>"
    unfolding res V1m P1m by (simp add: a_def b_def)
  have "st1 ! b = st ! b"
    unfolding st1_def assign_vel_def by (rule assign_rows_other[OF b1])
  moreover have "st2 ! b = (st1 ! b)\<lparr>vel := V2 ! m\<rparr>"
    unfolding st2_def assign_vel_def b_def
    by (rule assign_rows_hit[OF d2 lens(2) m2]) (use br l1 in \<open>simp add: b_def\<close>)
  ultimately have "st3 ! b = (st ! b)\<lparr>vel := V2 ! m\<rparr>"
    unfolding st3_def assign_pos_def by (simp add: assign_rows_other[OF b1])
  moreover have "st4 ! b = (st3 ! b)\<lparr>pos := P2 ! m\<rparr>"
    unfolding st4_def assign_pos_def b_def
    by (rule assign_rows_hit[OF d2 lens(4) m2]) (use br l3 in \<open>simp add: b_def\<close>)
  ultimately have "st4 ! b = (st ! b)\<lparr>vel := V2 ! m, pos := P2 ! m\<rparr>" by simp
  then show "resolve r c1 c2 st ! (c2 ! m)
         = \<lparr>pos = vec_add (pos (st ! (c2 ! m))) (pair_dp r (st ! (c1 ! m)) (st ! (c2 ! m))),
            vel = vec_add (vel (st ! (c2 ! m))) (pair_dv (st ! (c1 ! m)) (st ! (c2 ! m)))\<rparr>"
    unfolding res V2m P2m by (simp add: a_def b_def)
qed

lemma set_int_index_subset:
  "(\<And>k. k \<in> set idx \<Longrightarrow> k < length xs) \<Longrightarrow> set (int_index xs idx) \<subseteq> set xs"
  by (auto simp: int_index_def)

lemma set_int_index_unique_subset: "set (int_index ps (unique_index (map key ps))) \<subseteq> set ps"
proof (rule set_int_index_subset)
  fix k assume "k \<in> set (unique_index (map key ps))"
  then have "k < length (map key ps)" by (rule unique_index_range)
  then show "k < length ps" by simp
qed

lemma detect_pairs_subset_raw: "set (detect_pairs r st) \<subseteq> set (raw_pairs r st)"
proof -
  define ps where "ps = raw_pairs r st"
  define ps1 where "ps1 = int_index ps (unique_index (map fst ps))"
  define ps2 where "ps2 = int_index ps1 (unique_index (map snd ps1))"
  have dp: "detect_pairs r st = filter (\<lambda>p. fst p \<notin> set (map snd ps2)) ps2"
    by (simp only: detect_pairs_def Let_def ps_def ps1_def ps2_def)
  have "set (detect_pairs r st) \<subseteq> set ps2" unfolding dp by simp
  also have "\<dots> \<subseteq> set ps1" unfolding ps2_def by (rule set_int_index_unique_subset)
  also have "\<dots> \<subseteq> set ps" unfolding ps1_def by (rule set_int_index_unique_subset)
  finally show ?thesis unfolding ps_def .
qed

lemma detect_pairs_range:
  assumes "(a, b) \<in> set (detect_pairs r st)"
  shows "a < b" "b < length st" "fle (euclidean (pos (st ! a)) (pos (st ! b))) (Num (2 * r))"
proof -
  from assms have raw: "(a, b) \<in> set (raw_pairs r st)"
    by (rule subsetD[OF detect_pairs_subset_raw])
  then have "(a, b) \<in> set (triu_indices (length st))" by (simp add: raw_pairs_def)
  then have "a < b \<and> b < length st" by (rule triu_indices_range)
  then show "a < b" "b < length st" by simp_all
  from raw show "fle (euclidean (pos (st ! a)) (pos (st ! b))) (Num (2 * r))"
    by (simp add: raw_pairs_def)
qed

lemma collide_eq:
  "collide cfg st = resolve (radius cfg) (map fst (detect_pairs (radius cfg) st))
                      (map snd (detect_pairs (radius cfg) st)) st"
  by (simp add: collide_def detect_eq)

lemma collide_length: "length (collide cfg st) = length st"
  by (simp add: collide_eq resolve_length)

lemma collide_hit:
  assumes ab: "(a, b) \<in> set (detect_pairs (radius cfg) st)"
  shows "collide cfg st ! a
         = \<lparr>pos = vec_sub (pos (st ! a)) (pair_dp (radius cfg) (st ! a) (st ! b)),
            vel = vec_sub (vel (st ! a)) (pair_dv (st ! a) (st ! b))\<rparr>"
    and "collide cfg st ! b
         = \<lparr>pos = vec_add (pos (st ! b)) (pair_dp (radius cfg) (st ! a) (st ! b)),
            vel = vec_add (vel (st ! b)) (pair_dv (st ! a) (st ! b))\<rparr>"
proof -
  define dps where "dps = detect_pairs (radius cfg) st"
  from ab obtain m where m: "m < length dps" and dm: "dps ! m = (a, b)"
    unfolding dps_def[symmetric] by (auto simp: in_set_conv_nth)
  have d: "distinct (map fst dps @ map snd dps)" unfolding dps_def by (rule detect_pairs_distinct)
  have len: "length (map fst dps) = length (map snd dps)" by simp
  have rng: "\<And>k. k \<in> set (map fst dps @ map snd dps) \<Longrightarrow> k < length st"
  proof -
    fix k assume "k \<in> set (map fst dps @ map snd dps)"
    then obtain p where p: "p \<in> set dps" and k: "k = fst p \<or> k = snd p" by auto
    obtain i j where ij: "p = (i, j)" by (cases p)
    from p have "(i, j) \<in> set (detect_pairs (radius cfg) st)" by (simp add: ij dps_def)
    then have "i < j" "j < length st" by (rule detect_pairs_range)+
    with k ij show "k < length st" by auto
  qed
  from m have m1: "m < length (map fst dps)" by simp
  from m dm have a: "map fst dps ! m = a" and b: "map snd dps ! m = b" by simp_all
  show "collide cfg st ! a
         = \<lparr>pos = vec_sub (pos (st ! a)) (pair_dp (radius cfg) (st ! a) (st ! b)),
            vel = vec_sub (vel (st ! a)) (pair_dv (st ! a) (st ! b))\<rparr>"
    using resolve_hit(1)[OF d len rng m1, of "radius cfg"] by (simp only: collide_eq dps_def[symmetric] a b)
  show "collide cfg st ! b
         = \<lparr>pos = vec_add (pos (st ! b)) (pair_dp (radius cfg) (st ! a) (st ! b)),
            vel = vec_add (vel (st ! b)) (pair_dv (st ! a) (st ! b))\<rparr>"
    using resolve_hit(2)[OF d len rng m1, of "radius cfg"] by (simp only: collide_eq dps_def[symmetric] a b)
qed

lemma zip_detect: "zip (fst (detect r st)) (snd (detect r st)) = detect_pairs r st"
  by (simp add: detect_eq zip_map_fst_snd)

section \<open>Arithmetic of a matched pair\<close>

lemma fsqrt_Num: "fsqrt x = Num n \<Longrightarrow> \<exists>a. x = Num a \<and> 0 \<le> a \<and> n = sqrt a"
  by (cases x) (auto split: if_splits)

lemma fadd_Num: "fadd x y = Num c \<Longrightarrow> \<exists>a b. x = Num a \<and> y = Num b"
  by (cases x; cases y) simp_all

lemma fmul_Num: "fmul x y = Num c \<Longrightarrow> \<exists>a b. x = Num a \<and> y = Num b"
  by (cases x; cases y) simp_all

lemma fsub_Num: "fsub x y = Num c \<Longrightarrow> \<exists>a b. x = Num a \<and> y = Num b"
  by (cases x; cases y) simp_all

lemma euclidean_Num:
  assumes "euclidean u v = Num n"
  shows "\<exists>xu yu xv yv. u = (Num xu, Num yu) \<and> v = (Num xv, Num yv)
           \<and> n = sqrt ((xu - xv)\<^sup>2 + (yu - yv)\<^sup>2)"
proof -
  obtain u1 u2 v1 v2 where u: "u = (u1, u2)" and v: "v = (v1, v2)" by (cases u, cases v)
  from assms have "fsqrt (fadd (fmul (fsub u1 v1) (fsub u1 v1)) (fmul (fsub u2 v2) (fsub u2 v2))) = Num n"
    by (simp add: euclidean_def norm_row_def vec_sub_def u v)
  then obtain d where "fadd (fmul (fsub u1 v1) (fsub u1 v1)) (fmul (fsub u2 v2) (fsub u2 v2)) = Num d"
    using fsqrt_Num by blast
  then obtain d1 d2 where "fmul (fsub u1 v1) (fsub u1 v1) = Num d1" "fmul (fsub u2 v2) (fsub u2 v2) = Num d2"
    using fadd_Num by blast
  then obtain e1 e2 where "fsub u1 v1 = Num e1" "fsub u2 v2 = Num e2"
    using fmul_Num by blast
  then obtain xu xv yu yv where c: "u1 = Num xu" "v1 = Num xv" "u2 = Num yu" "v2 = Num yv"
    using fsub_Num by blast
  with assms have "n = sqrt ((xu - xv)\<^sup>2 + (yu - yv)\<^sup>2)"
    by (simp add: euclidean_def norm_row_def vec_sub_def u v power2_eq_square split: if_splits)
  with c u v show ?thesis by simp
qed

lemma sum_squares_pos: "0 < sqrt (a\<^sup>2 + b\<^sup>2) \<Longrightarrow> 0 < a * a + b * (b::real)"
  by (simp add: power2_eq_square)

lemma pair_dv_Num:
  assumes "pos p = (Num xa, Num ya)" "pos q = (Num xb, Num yb)"
    and "vel p = (Num vax, Num vay)" "vel q = (Num vbx, Num vby)"
    and "0 < (xb - xa) * (xb - xa) + (yb - ya) * (yb - ya)"
  shows "pair_dv p q =
     (Num (((vax - vbx) * (xb - xa) + (vay - vby) * (yb - ya))
            / ((xb - xa) * (xb - xa) + (yb - ya) * (yb - ya)) * (xb - xa)),
      Num (((vax - vbx) * (xb - xa) + (vay - vby) * (yb - ya))
            / ((xb - xa) * (xb - xa) + (yb - ya) * (yb - ya)) * (yb - ya)))"
proof -
  from assms(5) have nn: "\<not> (xb - xa) * (xb - xa) + (yb - ya) * (yb - ya) < 0" by linarith
  have nz: "(xb - xa) * (xb - xa) + (yb - ya) * (yb - ya) \<noteq> 0"
    by (rule less_imp_neq[THEN not_sym, OF assms(5)])
  have ab: "\<bar>(xb - xa) * (xb - xa) + (yb - ya) * (yb - ya)\<bar> = (xb - xa) * (xb - xa) + (yb - ya) * (yb - ya)"
    using assms(5) by linarith
  show ?thesis
    unfolding pair_dv_def Let_def assms(1-4) vec_sub_def einsum_dot_def norm_row_def scale_def
      fst_conv snd_conv fsub.simps fmul.simps fadd.simps fsqrt.simps if_not_P[OF nn]
      real_sqrt_mult_self ab fdiv.simps if_not_P[OF nz] ..
qed

lemma pair_dp_Num:
  assumes "pos p = (Num xa, Num ya)" "pos q = (Num xb, Num yb)"
    and "0 < (xb - xa) * (xb - xa) + (yb - ya) * (yb - ya)"
  shows "pair_dp r p q =
     (Num (1/2 * (2 * r / sqrt ((xb - xa) * (xb - xa) + (yb - ya) * (yb - ya)) - 1) * (xb - xa)),
      Num (1/2 * (2 * r / sqrt ((xb - xa) * (xb - xa) + (yb - ya) * (yb - ya)) - 1) * (yb - ya)))"
proof -
  from assms(3) have nn: "\<not> (xb - xa) * (xb - xa) + (yb - ya) * (yb - ya) < 0" by linarith
  from assms(3) have "0 < sqrt ((xb - xa) * (xb - xa) + (yb - ya) * (yb - ya))"
    by (simp only: real_sqrt_gt_0_iff)
  then have nz: "sqrt ((xb - xa) * (xb - xa) + (yb - ya) * (yb - ya)) \<noteq> 0"
    by (rule less_imp_neq[THEN not_sym])
  show ?thesis
    unfolding pair_dp_def Let_def assms(1-2) vec_sub_def norm_row_def scale_def
      fst_conv snd_conv fsub.simps fmul.simps fadd.simps fsqrt.simps if_not_P[OF nn]
      fdiv.simps if_not_P[OF nz] ..
qed

section \<open>The head-on scenario\<close>

lemma canvas_sel: "radius (canvas r) = r" "w (canvas r) = 700" "h (canvas r) = 700"
  by (simp_all add: canvas_def)

lemma sqrt_36: "sqrt 36 = 6"
  by (rule real_sqrt_unique) simp_all

lemma triu_2: "triu_indices 2 = [(0, 1)]"
  by (simp add: triu_indices_def numeral_2_eq_2)

lemma length_head_on: "length head_on = 2"
  by (simp add: head_on_def)

lemma nth_head_on:
  "head_on ! 0 = \<lparr>pos = (Num 10, Num 50), vel = (Num 5, Num 0)\<rparr>"
  "head_on ! 1 = \<lparr>pos = (Num 16, Num 50), vel = (Num (- 5), Num 0)\<rparr>"
  "head_on ! Suc 0 = \<lparr>pos = (Num 16, Num 50), vel = (Num (- 5), Num 0)\<rparr>"
  by (simp_all add: head_on_def)

lemma euclid_head_on: "euclidean (Num 10, Num 50) (Num 16, Num 50) = Num 6"
  by (simp add: euclidean_def norm_row_def vec_sub_def sqrt_36)

lemma raw_head_on: "raw_pairs 3 head_on = [(0, 1)]"
  by (simp add: raw_pairs_def length_head_on triu_2 nth_head_on euclid_head_on)

lemma unique_index_single: "unique_index [x] = [0]"
  by (simp add: unique_index_def)

lemma detect_pairs_head_on: "detect_pairs 3 head_on = [(0, 1)]"
  by (simp add: detect_pairs_def raw_head_on unique_index_single int_index_def)

lemma detect_head_on: "detect 3 head_on = ([0], [1])"
  by (simp add: detect_eq detect_pairs_head_on)

lemma resolve_head_on: "resolve 3 [0] [1] head_on =
   [\<lparr>pos = (Num 10, Num 50), vel = (Num (- 5), Num 0)\<rparr>,
    \<lparr>pos = (Num 16, Num 50), vel = (Num 5, Num 0)\<rparr>]"
  by (simp add: resolve_def assign_vel_def assign_pos_def
      assign_rows_def head_on_def vec_sub_def vec_add_def scale_def einsum_dot_def norm_row_def sqrt_36)

lemma collide_head_on: "collide (canvas 3) head_on =
   [\<lparr>pos = (Num 10, Num 50), vel = (Num (- 5), Num 0)\<rparr>,
    \<lparr>pos = (Num 16, Num 50), vel = (Num 5, Num 0)\<rparr>]"
  by (simp only: collide_def canvas_sel detect_head_on prod.case resolve_head_on)

lemma rebound_head_on: "rebound (canvas 3)
   [\<lparr>pos = (Num 10, Num 50), vel = (Num (- 5), Num 0)\<rparr>,
    \<lparr>pos = (Num 16, Num 50), vel = (Num 5, Num 0)\<rparr>] =
   [\<lparr>pos = (Num 10, Num 50), vel = (Num (- 5), Num 0)\<rparr>,
    \<lparr>pos = (Num 16, Num 50), vel = (Num 5, Num 0)\<rparr>]"
  by (simp add: rebound_def rebound_axis_def canvas_def coord_def)

lemma advance_head_on: "advance 0 head_on = head_on"
  by (simp add: advance_def head_on_def vec_add_def scale_def)

text \<open>
  C8. Two particles of radius 3 at (10,50) and (16,50) with velocities (5,0) and (-5,0):
  one step with time step 0 on the 700 by 700 canvas detects the pair (0,1), the centre
  distance 6 being equal to twice the radius, and returns the velocities swapped to (-5,0)
  and (5,0) with both positions as they were.
\<close>

theorem head_on_swap:
  "detect (radius (canvas 3)) (advance 0 head_on) = ([0], [1])
   \<and> step (canvas 3) 0 head_on =
       [\<lparr>pos = (Num 10, Num 50), vel = (Num (- 5), Num 0)\<rparr>,
        \<lparr>pos = (Num 16, Num 50), vel = (Num 5, Num 0)\<rparr>]"
  by (simp only: step_def advance_head_on canvas_sel detect_head_on collide_head_on rebound_head_on
      simp_thms)

section \<open>Conservation laws of the resolver\<close>

lemma pair_in_matching:
  assumes "(a, b) \<in> set (zip (fst (detect r st)) (snd (detect r st)))"
    and "euclidean (pos (st ! a)) (pos (st ! b)) = Num n" and "0 < n"
  obtains xa ya xb yb where "pos (st ! a) = (Num xa, Num ya)" "pos (st ! b) = (Num xb, Num yb)"
    "0 < (xb - xa) * (xb - xa) + (yb - ya) * (yb - ya)"
    "n = sqrt ((xb - xa) * (xb - xa) + (yb - ya) * (yb - ya))" "n \<le> 2 * r"
    "(a, b) \<in> set (detect_pairs r st)"
proof -
  from assms(1) have dp: "(a, b) \<in> set (detect_pairs r st)" by (simp only: zip_detect)
  from euclidean_Num[OF assms(2)] obtain xa ya xb yb where
    pa: "pos (st ! a) = (Num xa, Num ya)" and pb: "pos (st ! b) = (Num xb, Num yb)"
    and n: "n = sqrt ((xa - xb)\<^sup>2 + (ya - yb)\<^sup>2)" by blast
  have sq: "(xa - xb)\<^sup>2 + (ya - yb)\<^sup>2 = (xb - xa) * (xb - xa) + (yb - ya) * (yb - ya)"
    by (simp add: power2_eq_square algebra_simps)
  from n have n': "n = sqrt ((xb - xa) * (xb - xa) + (yb - ya) * (yb - ya))" by (simp only: sq)
  from assms(3) have pos: "0 < (xb - xa) * (xb - xa) + (yb - ya) * (yb - ya)"
    unfolding n' by (simp only: real_sqrt_gt_0_iff)
  from detect_pairs_range(3)[OF dp] have le: "n \<le> 2 * r" by (simp add: assms(2))
  from pa pb pos n' le dp show thesis by (rule that)
qed

text \<open>
  C2. For a pair \<open>(a, b)\<close> of the matching of a state whose centres are at a distance
  \<open>n > 0\<close> and whose velocities are real vectors, the velocities after the collision
  stage add up to what they added up to before it.
\<close>

theorem resolved_pair_momentum:
  assumes "(a, b) \<in> set (zip (fst (detect (radius cfg) st)) (snd (detect (radius cfg) st)))"
    and "euclidean (pos (st ! a)) (pos (st ! b)) = Num n" and "0 < n"
    and "vel (st ! a) = (Num vax, Num vay)" and "vel (st ! b) = (Num vbx, Num vby)"
  shows "vec_add (vel (collide cfg st ! a)) (vel (collide cfg st ! b))
         = (Num (vax + vbx), Num (vay + vby))"
proof -
  from assms(1-3) obtain xa ya xb yb where
    pa: "pos (st ! a) = (Num xa, Num ya)" and pb: "pos (st ! b) = (Num xb, Num yb)"
    and d: "0 < (xb - xa) * (xb - xa) + (yb - ya) * (yb - ya)"
    and dp: "(a, b) \<in> set (detect_pairs (radius cfg) st)"
    by (rule pair_in_matching)
  show ?thesis
    unfolding collide_hit[OF dp] pair_dv_Num[OF pa pb assms(4,5) d] assms(4,5)
    by (simp add: vec_add_def vec_sub_def)
qed

lemma energy_algebra:
  fixes dx dy :: real
  assumes "0 < dx * dx + dy * dy"
  shows "(vax - ((vax - vbx) * dx + (vay - vby) * dy) / (dx * dx + dy * dy) * dx)\<^sup>2
       + (vay - ((vax - vbx) * dx + (vay - vby) * dy) / (dx * dx + dy * dy) * dy)\<^sup>2
       + ((vbx + ((vax - vbx) * dx + (vay - vby) * dy) / (dx * dx + dy * dy) * dx)\<^sup>2
       + (vby + ((vax - vbx) * dx + (vay - vby) * dy) / (dx * dx + dy * dy) * dy)\<^sup>2)
       = vax\<^sup>2 + vay\<^sup>2 + (vbx\<^sup>2 + vby\<^sup>2)"
proof -
  define d2 where "d2 = dx * dx + dy * dy"
  define s where "s = (vax - vbx) * dx + (vay - vby) * dy"
  define c where "c = s / d2"
  from assms have "d2 \<noteq> 0" unfolding d2_def by (rule less_imp_neq[THEN not_sym])
  then have cs: "c * d2 = s" by (simp add: c_def)
  have "(vax - c * dx)\<^sup>2 + (vay - c * dy)\<^sup>2 + ((vbx + c * dx)\<^sup>2 + (vby + c * dy)\<^sup>2)
        = vax\<^sup>2 + vay\<^sup>2 + (vbx\<^sup>2 + vby\<^sup>2) + 2 * c * (c * (dx * dx + dy * dy) - ((vax - vbx) * dx + (vay - vby) * dy))"
    by (simp add: power2_eq_square algebra_simps)
  also have "\<dots> = vax\<^sup>2 + vay\<^sup>2 + (vbx\<^sup>2 + vby\<^sup>2)"
    using cs by (simp add: d2_def s_def)
  finally show ?thesis by (simp only: c_def s_def d2_def)
qed

text \<open>
  C3. For such a pair the squared lengths of the two velocities after the collision stage
  add up to what they added up to before it.
\<close>

theorem resolved_pair_energy:
  assumes "(a, b) \<in> set (zip (fst (detect (radius cfg) st)) (snd (detect (radius cfg) st)))"
    and "euclidean (pos (st ! a)) (pos (st ! b)) = Num n" and "0 < n"
    and "vel (st ! a) = (Num vax, Num vay)" and "vel (st ! b) = (Num vbx, Num vby)"
  shows "fadd (sq_norm (vel (collide cfg st ! a))) (sq_norm (vel (collide cfg st ! b)))
         = Num (vax\<^sup>2 + vay\<^sup>2 + (vbx\<^sup>2 + vby\<^sup>2))"
proof -
  from assms(1-3) obtain xa ya xb yb where
    pa: "pos (st ! a) = (Num xa, Num ya)" and pb: "pos (st ! b) = (Num xb, Num yb)"
    and d: "0 < (xb - xa) * (xb - xa) + (yb - ya) * (yb - ya)"
    and dp: "(a, b) \<in> set (detect_pairs (radius cfg) st)"
    by (rule pair_in_matching)
  define c where "c = ((vax - vbx) * (xb - xa) + (vay - vby) * (yb - ya))
                      / ((xb - xa) * (xb - xa) + (yb - ya) * (yb - ya))"
  have va: "vel (collide cfg st ! a) = (Num (vax - c * (xb - xa)), Num (vay - c * (yb - ya)))"
    unfolding collide_hit[OF dp] pair_dv_Num[OF pa pb assms(4,5) d] assms(4,5) c_def
    by (simp add: vec_sub_def)
  have vb: "vel (collide cfg st ! b) = (Num (vbx + c * (xb - xa)), Num (vby + c * (yb - ya)))"
    unfolding collide_hit[OF dp] pair_dv_Num[OF pa pb assms(4,5) d] assms(4,5) c_def
    by (simp add: vec_add_def)
  have "fadd (sq_norm (vel (collide cfg st ! a))) (sq_norm (vel (collide cfg st ! b)))
        = Num ((vax - c * (xb - xa))\<^sup>2 + (vay - c * (yb - ya))\<^sup>2
               + ((vbx + c * (xb - xa))\<^sup>2 + (vby + c * (yb - ya))\<^sup>2))"
    unfolding va vb by (simp add: sq_norm_def power2_eq_square)
  also have "\<dots> = Num (vax\<^sup>2 + vay\<^sup>2 + (vbx\<^sup>2 + vby\<^sup>2))"
    unfolding c_def by (simp only: energy_algebra[OF d])
  finally show ?thesis .
qed

section \<open>Position correction and frame of the resolver\<close>

lemma separation_algebra:
  fixes xa ya xb yb r :: real
  assumes d: "0 < (xb - xa) * (xb - xa) + (yb - ya) * (yb - ya)"
    and r: "sqrt ((xb - xa) * (xb - xa) + (yb - ya) * (yb - ya)) \<le> 2 * r"
    and k: "k = 1/2 * (2 * r / sqrt ((xb - xa) * (xb - xa) + (yb - ya) * (yb - ya)) - 1)"
  shows "sqrt ((xb + k * (xb - xa) - (xa - k * (xb - xa))) * (xb + k * (xb - xa) - (xa - k * (xb - xa)))
             + (yb + k * (yb - ya) - (ya - k * (yb - ya))) * (yb + k * (yb - ya) - (ya - k * (yb - ya))))
         = 2 * r"
proof -
  define D where "D = (xb - xa) * (xb - xa) + (yb - ya) * (yb - ya)"
  define n where "n = sqrt D"
  from d have n0: "0 < n" unfolding n_def D_def by (simp only: real_sqrt_gt_0_iff)
  then have nz: "n \<noteq> 0" by (rule less_imp_neq[THEN not_sym])
  from d have "0 \<le> D" unfolding D_def by linarith
  then have nn: "n * n = D" unfolding n_def by simp
  from r n0 have r0: "0 \<le> 2 * r" unfolding n_def D_def by linarith
  have k': "k = 1/2 * (2 * r / n - 1)" unfolding k n_def D_def ..
  have e: "1 + 2 * k = 2 * r / n" unfolding k' by (simp add: field_simps)
  have ex: "xb + k * (xb - xa) - (xa - k * (xb - xa)) = (1 + 2 * k) * (xb - xa)"
    by (simp add: algebra_simps)
  have ey: "yb + k * (yb - ya) - (ya - k * (yb - ya)) = (1 + 2 * k) * (yb - ya)"
    by (simp add: algebra_simps)
  have "(2 * r / n * (xb - xa)) * (2 * r / n * (xb - xa)) + (2 * r / n * (yb - ya)) * (2 * r / n * (yb - ya))
        = (2 * r / n) * (2 * r / n) * D"
  proof -
    have "(c * u) * (c * u) + (c * v) * (c * v) = c * c * (u * u + v * v)" for c u v :: real
      by (simp add: algebra_simps)
    then show ?thesis unfolding D_def .
  qed
  also have "\<dots> = (2 * r / n) * (2 * r / n) * (n * n)" by (simp only: nn)
  also have "\<dots> = (2 * r) * (2 * r)" using nz by simp
  finally have "sqrt ((2 * r / n * (xb - xa)) * (2 * r / n * (xb - xa))
                    + (2 * r / n * (yb - ya)) * (2 * r / n * (yb - ya))) = sqrt ((2 * r) * (2 * r))"
    by (rule arg_cong)
  also have "\<dots> = 2 * r" using r0 by (simp only: real_sqrt_abs2 abs_of_nonneg)
  finally show ?thesis unfolding ex ey e .
qed

text \<open>
  C7. For a pair \<open>(a, b)\<close> of the matching whose centres are at a distance \<open>n > 0\<close>,
  the positions after the collision stage are exactly \<open>2 * radius\<close> apart, and their
  midpoint is the midpoint of the positions before it.
\<close>

theorem resolved_pair_separation:
  assumes "(a, b) \<in> set (zip (fst (detect (radius cfg) st)) (snd (detect (radius cfg) st)))"
    and "euclidean (pos (st ! a)) (pos (st ! b)) = Num n" and "0 < n"
  shows "norm_row (vec_sub (pos (collide cfg st ! b)) (pos (collide cfg st ! a))) = Num (2 * radius cfg)
       \<and> midpoint (pos (collide cfg st ! a)) (pos (collide cfg st ! b))
         = midpoint (pos (st ! a)) (pos (st ! b))"
proof -
  from assms(1-3) obtain xa ya xb yb where
    pa: "pos (st ! a) = (Num xa, Num ya)" and pb: "pos (st ! b) = (Num xb, Num yb)"
    and d: "0 < (xb - xa) * (xb - xa) + (yb - ya) * (yb - ya)"
    and n: "n = sqrt ((xb - xa) * (xb - xa) + (yb - ya) * (yb - ya))"
    and le: "n \<le> 2 * radius cfg"
    and dp: "(a, b) \<in> set (detect_pairs (radius cfg) st)"
    by (rule pair_in_matching)
  define k where "k = 1/2 * (2 * radius cfg / sqrt ((xb - xa) * (xb - xa) + (yb - ya) * (yb - ya)) - 1)"
  have pa': "pos (collide cfg st ! a) = (Num (xa - k * (xb - xa)), Num (ya - k * (yb - ya)))"
    unfolding collide_hit[OF dp] pair_dp_Num[OF pa pb d] pa k_def
    by (simp add: vec_sub_def)
  have pb': "pos (collide cfg st ! b) = (Num (xb + k * (xb - xa)), Num (yb + k * (yb - ya)))"
    unfolding collide_hit[OF dp] pair_dp_Num[OF pa pb d] pb k_def
    by (simp add: vec_add_def)
  have nonneg: "\<not> (xb + k * (xb - xa) - (xa - k * (xb - xa))) * (xb + k * (xb - xa) - (xa - k * (xb - xa)))
             + (yb + k * (yb - ya) - (ya - k * (yb - ya))) * (yb + k * (yb - ya) - (ya - k * (yb - ya))) < 0"
    by (simp add: not_less)
  have sep: "norm_row (vec_sub (pos (collide cfg st ! b)) (pos (collide cfg st ! a))) = Num (2 * radius cfg)"
    unfolding pa' pb' norm_row_def vec_sub_def fst_conv snd_conv fsub.simps fmul.simps fadd.simps
      fsqrt.simps if_not_P[OF nonneg]
      separation_algebra[OF d le[unfolded n] k_def] ..
  have mid: "midpoint (pos (collide cfg st ! a)) (pos (collide cfg st ! b))
         = midpoint (pos (st ! a)) (pos (st ! b))"
    unfolding pa' pb' pa pb by (simp add: midpoint_def vec_add_def scale_def)
  from sep mid show ?thesis ..
qed

text \<open>
  C10. A particle whose index is in no pair of the matching has after the collision stage
  the row it had before: the resolver writes to the matched particles only.
\<close>

theorem resolver_frame:
  assumes "k < length st"
    and "k \<notin> set (fst (detect (radius cfg) st))" and "k \<notin> set (snd (detect (radius cfg) st))"
  shows "collide cfg st ! k = st ! k"
  using assms(2,3) unfolding collide_def by (simp add: split_def resolve_other)

section \<open>Rounding to float64\<close>

lemma float64_eval:
  assumes "2 powr of_int e \<le> \<bar>x\<bar>" "\<bar>x\<bar> < 2 powr (of_int e + 1)" "- 1022 \<le> e"
    and "round_half_even (x / 2 powr (of_int e - 52)) = n"
  shows "float64 x = of_int n * 2 powr (of_int e - 52)"
proof -
  have "0 < (2::real) powr of_int e" by simp
  with assms(1) have pos: "0 < \<bar>x\<bar>" by linarith
  then have nz: "x \<noteq> 0" by auto
  have "\<lfloor>log 2 \<bar>x\<bar>\<rfloor> = e"
    using pos assms(1,2) by (simp add: floor_log_eq_powr_iff)
  with assms(3) have "max \<lfloor>log 2 \<bar>x\<bar>\<rfloor> (- 1022) = e" by simp
  then show ?thesis using nz assms(4) by (simp add: float64_def Let_def)
qed

lemma float64_unit:
  assumes u: "u = 2 powr (of_int e - 52)" and lo: "2 ^ 52 * u \<le> \<bar>x\<bar>" and hi: "\<bar>x\<bar> < 2 ^ 53 * u"
    and e: "- 1022 \<le> e" and n: "round_half_even (x / u) = n"
  shows "float64 x = of_int n * u"
proof -
  have "(2::real) powr (52 + (of_int e - 52)) = 2 powr 52 * 2 powr (of_int e - 52)"
    by (rule powr_add)
  then have a: "(2::real) powr of_int e = 2 ^ 52 * u" unfolding u by simp
  have "(2::real) powr (53 + (of_int e - 52)) = 2 powr 53 * 2 powr (of_int e - 52)"
    by (rule powr_add)
  then have b: "(2::real) powr (of_int e + 1) = 2 ^ 53 * u" unfolding u by (simp add: add.commute)
  show ?thesis unfolding u
    by (rule float64_eval) (use lo hi e n in \<open>simp_all only: a b u[symmetric]\<close>)
qed

lemma round_half_even_bounds: "\<lfloor>q\<rfloor> \<le> round_half_even q" "round_half_even q \<le> \<lfloor>q\<rfloor> + 1"
  by (simp_all add: round_half_even_def Let_def)

lemma round_half_even_int: "round_half_even (of_int m) = m"
  by (simp add: round_half_even_def)

lemma fl_unit:
  assumes u: "u = 2 powr (of_int e - 52)" and lo: "2 ^ 52 * u \<le> \<bar>x\<bar>" and hi: "\<bar>x\<bar> < 2 ^ 53 * u"
    and e: "- 1022 \<le> e" "e \<le> 1022" and n: "round_half_even (x / u) = n"
  shows "fl (Num x) = Num (of_int n * u)"
proof -
  have f: "float64 x = of_int n * u" using u lo hi e(1) n by (rule float64_unit)
  have up: "0 < u" unfolding u by simp
  from hi up have q: "\<bar>x / u\<bar> < 2 ^ 53" by (simp add: field_simps)
  then have "x / u < 2 ^ 53" "- (2 ^ 53) < x / u" by linarith+
  then have "\<lfloor>x / u\<rfloor> < 2 ^ 53" "- (2 ^ 53) \<le> \<lfloor>x / u\<rfloor>"
    by (simp_all add: floor_less_iff le_floor_iff)
  with round_half_even_bounds[of "x / u"] n have "n \<le> 2 ^ 53" "- (2 ^ 53) \<le> n" by linarith+
  then have "real_of_int n \<le> real_of_int (2 ^ 53)" "real_of_int (- (2 ^ 53)) \<le> real_of_int n"
    by (simp_all only: of_int_le_iff)
  then have "\<bar>real_of_int n\<bar> \<le> 2 ^ 53" by simp
  then have "\<bar>of_int n * u\<bar> \<le> 2 ^ 53 * u" using up by (simp add: abs_mult)
  also have "2 ^ 53 * u = 2 powr (of_int e + 1)"
  proof -
    have "(2::real) powr (53 + (of_int e - 52)) = 2 powr 53 * 2 powr (of_int e - 52)"
      by (rule powr_add)
    then show ?thesis unfolding u by (simp add: add.commute)
  qed
  also have "\<dots> \<le> 2 powr 1023"
  proof (rule powr_mono)
    from e(2) have "real_of_int e \<le> real_of_int 1022" by (simp only: of_int_le_iff)
    then show "real_of_int e + 1 \<le> 1023" by simp
  qed simp
  also have "\<dots> < 2 ^ 1024" by simp
  finally have "\<not> 2 ^ 1024 \<le> \<bar>float64 x\<bar>" unfolding f by simp
  then show ?thesis by (simp add: f)
qed

lemma fl_zero: "fl (Num 0) = Num 0"
  by (simp add: float64_def)


lemma fl_small:
  "fl (Num 1) = Num 1" "fl (Num 2) = Num 2" "fl (Num 4) = Num 4" "fl (Num 7) = Num 7"
  "fl (Num 8) = Num 8" "fl (Num (- 2)) = Num (- 2)" "fl (Num (- 3)) = Num (- 3)"
  "fl (Num 696) = Num 696"
proof -
  have "fl (Num (1)) = Num (of_int (1 * 2 ^ 52) * (1 / 2 ^ 52))"
    by (rule fl_unit[where e = 0]) (simp_all add: powr_neg_numeral round_half_even_def)
  then show "fl (Num (1)) = Num (1)" by simp
  have "fl (Num (2)) = Num (of_int (2 * 2 ^ 51) * (1 / 2 ^ 51))"
    by (rule fl_unit[where e = 1]) (simp_all add: powr_neg_numeral round_half_even_def)
  then show "fl (Num (2)) = Num (2)" by simp
  have "fl (Num (4)) = Num (of_int (4 * 2 ^ 50) * (1 / 2 ^ 50))"
    by (rule fl_unit[where e = 2]) (simp_all add: powr_neg_numeral round_half_even_def)
  then show "fl (Num (4)) = Num (4)" by simp
  have "fl (Num (7)) = Num (of_int (7 * 2 ^ 50) * (1 / 2 ^ 50))"
    by (rule fl_unit[where e = 2]) (simp_all add: powr_neg_numeral round_half_even_def)
  then show "fl (Num (7)) = Num (7)" by simp
  have "fl (Num (8)) = Num (of_int (8 * 2 ^ 49) * (1 / 2 ^ 49))"
    by (rule fl_unit[where e = 3]) (simp_all add: powr_neg_numeral round_half_even_def)
  then show "fl (Num (8)) = Num (8)" by simp
  have "fl (Num (- 2)) = Num (of_int (- 2 * 2 ^ 51) * (1 / 2 ^ 51))"
    by (rule fl_unit[where e = 1]) (simp_all add: powr_neg_numeral round_half_even_def)
  then show "fl (Num (- 2)) = Num (- 2)" by simp
  have "fl (Num (- 3)) = Num (of_int (- 3 * 2 ^ 51) * (1 / 2 ^ 51))"
    by (rule fl_unit[where e = 1]) (simp_all add: powr_neg_numeral round_half_even_def)
  then show "fl (Num (- 3)) = Num (- 3)" by simp
  have "fl (Num (696)) = Num (of_int (696 * 2 ^ 43) * (1 / 2 ^ 43))"
    by (rule fl_unit[where e = 9]) (simp_all add: powr_neg_numeral round_half_even_def)
  then show "fl (Num (696)) = Num (696)" by simp
qed


lemma push_low_at_wall: "push_low 3 (Num 2) = Num 4"
  by (simp add: push_low_def radd_def rsub_def fl_small del: fl.simps)



section \<open>The boundary reflector\<close>

lemma masked_update_map:
  "masked_update (map P xs) f (map g xs) = map (\<lambda>x. if P x then f (g x) else g x) xs"
  by (induction xs) (simp_all add: masked_update_def)

lemma masked_update_map_id:
  "masked_update (map P xs) f xs = map (\<lambda>x. if P x then f x else x) xs"
  using masked_update_map[of P xs f "\<lambda>x. x"] by simp

lemma no_true_map: "\<not> 0 < length (filter id (map P xs)) \<Longrightarrow> x \<in> set xs \<Longrightarrow> \<not> P x"
  by (simp add: filter_map filter_empty_conv comp_def)

lemma rebound_axis_map: "rebound_axis cfg i st = map (reflect_particle cfg i) st"
proof -
  define lo where "lo = (\<lambda>p::particle. flt (coord i (pos p)) (Num (radius cfg)))"
  define hi where "hi = (\<lambda>p::particle. flt (Num ([w cfg, h cfg] ! i - radius cfg)) (coord i (pos p)))"
  define fv where "fv = (\<lambda>p::particle. p\<lparr>vel := set_coord i (fneg (coord i (vel p))) (vel p)\<rparr>)"
  define gl where "gl = (\<lambda>p::particle. p\<lparr>pos := set_coord i
         (push_low (radius cfg) (coord i (pos p))) (pos p)\<rparr>)"
  define fh where "fh = (\<lambda>p::particle. p\<lparr>pos := set_coord i
         (push_high ([w cfg, h cfg] ! i - radius cfg) (coord i (pos p))) (pos p)\<rparr>)"
  define F where "F = (\<lambda>p::particle. if lo p then gl (fv p) else p)"
  define st1 where "st1 = (if 0 < length (filter id (map lo st))
      then masked_update (map lo st) gl (masked_update (map lo st) fv st) else st)"
  have r: "rebound_axis cfg i st =
      (if 0 < length (filter id (map hi st))
       then masked_update (map hi st) fh (masked_update (map hi st) fv st1) else st1)"
    unfolding rebound_axis_def Let_def st1_def lo_def hi_def fv_def gl_def fh_def ..
  have s1: "st1 = map F st"
  proof (cases "0 < length (filter id (map lo st))")
    case True
    have "masked_update (map lo st) gl (masked_update (map lo st) fv st)
          = masked_update (map lo st) gl (map (\<lambda>x. if lo x then fv x else x) st)"
      by (simp only: masked_update_map_id)
    also have "\<dots> = map (\<lambda>x. if lo x then gl (if lo x then fv x else x) else (if lo x then fv x else x)) st"
      by (rule masked_update_map)
    also have "\<dots> = map F st" unfolding F_def by (rule map_cong) simp_all
    finally show ?thesis unfolding st1_def using True by simp
  next
    case False
    then have "\<And>x. x \<in> set st \<Longrightarrow> \<not> lo x" by (rule no_true_map)
    then have "map F st = st" unfolding F_def by (simp add: map_idI)
    with False show ?thesis unfolding st1_def by simp
  qed
  have s2: "(if 0 < length (filter id (map hi st))
       then masked_update (map hi st) fh (masked_update (map hi st) fv st1) else st1)
      = map (\<lambda>p. if hi p then fh (fv (F p)) else F p) st"
  proof (cases "0 < length (filter id (map hi st))")
    case True
    have "masked_update (map hi st) fh (masked_update (map hi st) fv (map F st))
          = masked_update (map hi st) fh (map (\<lambda>x. if hi x then fv (F x) else F x) st)"
      by (simp only: masked_update_map)
    also have "\<dots> = map (\<lambda>x. if hi x then fh (if hi x then fv (F x) else F x)
                              else (if hi x then fv (F x) else F x)) st"
      by (rule masked_update_map)
    also have "\<dots> = map (\<lambda>p. if hi p then fh (fv (F p)) else F p) st"
      by (rule map_cong) simp_all
    finally show ?thesis using True by (simp add: s1)
  next
    case False
    then have nh: "\<And>x. x \<in> set st \<Longrightarrow> \<not> hi x" by (rule no_true_map)
    have "map (\<lambda>p. if hi p then fh (fv (F p)) else F p) st = map F st"
      by (rule map_cong) (simp_all add: nh)
    with False show ?thesis by (simp add: s1)
  qed
  have "\<And>p. (if hi p then fh (fv (F p)) else F p) = reflect_particle cfg i p"
    unfolding reflect_particle_def reflect_low_def reflect_high_def Let_def F_def hi_def lo_def
      fh_def gl_def fv_def
    by (simp add: coord_def set_coord_def)
  then show ?thesis unfolding r s2 by simp
qed

lemma rebound_map: "rebound cfg st = map (\<lambda>p. reflect_particle cfg 1 (reflect_particle cfg 0 p)) st"
  by (simp add: rebound_def rebound_axis_map)

lemma fneg_fneg: "fneg (fneg v) = v"
  by (cases v) simp_all












lemma rebound_length: "length (rebound cfg st) = length st"
  by (simp add: rebound_map)

lemma triu_1: "triu_indices (Suc 0) = []"
  by (simp add: triu_indices_def)

lemma detect_single: "detect r [p] = ([], [])"
  by (simp add: detect_eq detect_pairs_def raw_pairs_def triu_1 unique_index_def int_index_def)

lemma collide_single: "collide cfg [p] = [p]"
  by (simp add: collide_def detect_single resolve_def)



section \<open>The theorems at concrete states\<close>

lemma euclid_eval:
  "0 \<le> n \<Longrightarrow> (xu - xv)\<^sup>2 + (yu - yv)\<^sup>2 = n\<^sup>2
   \<Longrightarrow> euclidean (Num xu, Num yu) (Num xv, Num yv) = Num n"
proof -
  assume n: "0 \<le> n" and e: "(xu - xv)\<^sup>2 + (yu - yv)\<^sup>2 = n\<^sup>2"
  have "sqrt ((xu - xv) * (xu - xv) + (yu - yv) * (yu - yv)) = n"
    using n e by (intro real_sqrt_unique) (simp_all add: power2_eq_square)
  moreover have "\<not> (xu - xv) * (xu - xv) + (yu - yv) * (yu - yv) < 0"
    by (simp add: not_less)
  ultimately show ?thesis
    by (simp add: euclidean_def norm_row_def vec_sub_def)
qed

lemma nth_oblique:
  "oblique ! 0 = \<lparr>pos = (Num 10, Num 50), vel = (Num 5, Num 0)\<rparr>"
  "oblique ! 1 = \<lparr>pos = (Num 13, Num 54), vel = (Num (- 5), Num 0)\<rparr>"
  "oblique ! Suc 0 = \<lparr>pos = (Num 13, Num 54), vel = (Num (- 5), Num 0)\<rparr>"
  by (simp_all add: oblique_def)

lemma euclid_oblique: "euclidean (Num 10, Num 50) (Num 13, Num 54) = Num 5"
  by (rule euclid_eval) simp_all

lemma detect_pairs_oblique: "detect_pairs 3 oblique = [(0, 1)]"
proof -
  have "length oblique = 2" by (simp add: oblique_def)
  then have "raw_pairs 3 oblique = [(0, 1)]"
    by (simp add: raw_pairs_def triu_2 nth_oblique euclid_oblique)
  then show ?thesis
    by (simp add: detect_pairs_def unique_index_single int_index_def)
qed

lemma matched_oblique:
  "(0, 1) \<in> set (zip (fst (detect (radius (canvas 3)) oblique)) (snd (detect (radius (canvas 3)) oblique)))"
  by (simp add: zip_detect canvas_sel detect_pairs_oblique)

theorem resolved_pair_momentum_witness:
  "(0, 1) \<in> set (zip (fst (detect (radius (canvas 3)) oblique)) (snd (detect (radius (canvas 3)) oblique)))
   \<and> euclidean (pos (oblique ! 0)) (pos (oblique ! 1)) = Num 5
   \<and> vel (oblique ! 0) = (Num 5, Num 0) \<and> vel (oblique ! 1) = (Num (- 5), Num 0)
   \<and> vec_add (vel (collide (canvas 3) oblique ! 0)) (vel (collide (canvas 3) oblique ! 1))
       = (Num 0, Num 0)"
proof -
  have e: "euclidean (pos (oblique ! 0)) (pos (oblique ! 1)) = Num 5"
    by (simp add: nth_oblique euclid_oblique)
  have p: "(0::real) < 5" by simp
  have va: "vel (oblique ! 0) = (Num 5, Num 0)" and vb: "vel (oblique ! 1) = (Num (- 5), Num 0)"
    by (simp_all add: nth_oblique)
  from resolved_pair_momentum[OF matched_oblique e p va vb] matched_oblique e va vb
  show ?thesis by simp
qed

theorem resolved_pair_energy_witness:
  "(0, 1) \<in> set (zip (fst (detect (radius (canvas 3)) oblique)) (snd (detect (radius (canvas 3)) oblique)))
   \<and> euclidean (pos (oblique ! 0)) (pos (oblique ! 1)) = Num 5
   \<and> vel (oblique ! 0) = (Num 5, Num 0) \<and> vel (oblique ! 1) = (Num (- 5), Num 0)
   \<and> fadd (sq_norm (vel (collide (canvas 3) oblique ! 0))) (sq_norm (vel (collide (canvas 3) oblique ! 1)))
       = Num 50"
proof -
  have e: "euclidean (pos (oblique ! 0)) (pos (oblique ! 1)) = Num 5"
    by (simp add: nth_oblique euclid_oblique)
  have p: "(0::real) < 5" by simp
  have va: "vel (oblique ! 0) = (Num 5, Num 0)" and vb: "vel (oblique ! 1) = (Num (- 5), Num 0)"
    by (simp_all add: nth_oblique)
  from resolved_pair_energy[OF matched_oblique e p va vb] matched_oblique e va vb
  show ?thesis by simp
qed

theorem resolved_pair_separation_witness:
  "(0, 1) \<in> set (zip (fst (detect (radius (canvas 3)) oblique)) (snd (detect (radius (canvas 3)) oblique)))
   \<and> euclidean (pos (oblique ! 0)) (pos (oblique ! 1)) = Num 5
   \<and> norm_row (vec_sub (pos (collide (canvas 3) oblique ! 1)) (pos (collide (canvas 3) oblique ! 0)))
       = Num 6
   \<and> midpoint (pos (collide (canvas 3) oblique ! 0)) (pos (collide (canvas 3) oblique ! 1))
       = (Num (23 / 2), Num 52)"
proof -
  have e: "euclidean (pos (oblique ! 0)) (pos (oblique ! 1)) = Num 5"
    by (simp add: nth_oblique euclid_oblique)
  have p: "(0::real) < 5" by simp
  have m: "midpoint (pos (oblique ! 0)) (pos (oblique ! 1)) = (Num (23 / 2), Num 52)"
    by (simp add: nth_oblique midpoint_def vec_add_def scale_def)
  from resolved_pair_separation[OF matched_oblique e p] matched_oblique e m
  show ?thesis by (simp add: canvas_sel)
qed

lemma nth_bystander:
  "bystander ! 0 = \<lparr>pos = (Num 10, Num 50), vel = (Num 5, Num 0)\<rparr>"
  "bystander ! 1 = \<lparr>pos = (Num 16, Num 50), vel = (Num (- 5), Num 0)\<rparr>"
  "bystander ! Suc 0 = \<lparr>pos = (Num 16, Num 50), vel = (Num (- 5), Num 0)\<rparr>"
  "bystander ! 2 = \<lparr>pos = (Num 100, Num 50), vel = (Num 0, Num 0)\<rparr>"
  by (simp_all add: bystander_def)

lemma triu_3: "triu_indices 3 = [(0, 1), (0, 2), (1, 2)]"
  by (simp add: triu_indices_def numeral_3_eq_3 upt_rec)

lemma euclid_bystander:
  "euclidean (Num 10, Num 50) (Num 100, Num 50) = Num 90"
  "euclidean (Num 16, Num 50) (Num 100, Num 50) = Num 84"
  by (rule euclid_eval; simp)+

lemma detect_pairs_bystander: "detect_pairs 3 bystander = [(0, 1)]"
proof -
  have "length bystander = 3" by (simp add: bystander_def)
  then have "raw_pairs 3 bystander = [(0, 1)]"
    by (simp add: raw_pairs_def triu_3 nth_bystander euclid_head_on euclid_bystander)
  then show ?thesis
    by (simp add: detect_pairs_def unique_index_single int_index_def)
qed

theorem resolver_frame_witness:
  "2 < length bystander
   \<and> 2 \<notin> set (fst (detect (radius (canvas 3)) bystander))
   \<and> 2 \<notin> set (snd (detect (radius (canvas 3)) bystander))
   \<and> fst (detect (radius (canvas 3)) bystander) = [0]
   \<and> collide (canvas 3) bystander ! 2 = \<lparr>pos = (Num 100, Num 50), vel = (Num 0, Num 0)\<rparr>"
proof -
  have l: "2 < length bystander" by (simp add: bystander_def)
  have d: "detect (radius (canvas 3)) bystander = ([0], [Suc 0])"
    by (simp add: detect_eq canvas_sel detect_pairs_bystander)
  have a: "2 \<notin> set (fst (detect (radius (canvas 3)) bystander))"
    and b: "2 \<notin> set (snd (detect (radius (canvas 3)) bystander))"
    by (simp_all add: d)
  from resolver_frame[OF l a b] l a b d show ?thesis by (simp add: nth_bystander)
qed

section \<open>Particles at one position, particles at rest\<close>

lemma fadd_zero: "fadd x (Num 0) = x"
  by (cases x) simp_all

lemma advance_zero:
  assumes "\<And>p. p \<in> set st \<Longrightarrow> vel p = (Num 0, Num 0)"
  shows "advance dt st = st"
proof -
  have "\<And>p. p \<in> set st \<Longrightarrow> p\<lparr>pos := vec_add (pos p) (scale (Num dt) (vel p))\<rparr> = p"
    by (simp add: assms vec_add_def scale_def fadd_zero)
  then show ?thesis unfolding advance_def by (rule map_idI)
qed

lemma detect_no_raw: "raw_pairs r st = [] \<Longrightarrow> detect r st = ([], [])"
  by (simp add: detect_eq detect_pairs_def unique_index_def int_index_def)

lemma collide_no_raw: "raw_pairs (radius cfg) st = [] \<Longrightarrow> collide cfg st = st"
  by (simp add: collide_def detect_no_raw resolve_def)

lemma advance_overlap: "advance (1/5) overlap = overlap"
  by (rule advance_zero) (auto simp: overlap_def)

lemma detect_overlap: "detect 3 overlap = ([0], [1])"
proof -
  have e: "euclidean (Num 10, Num 50) (Num 10, Num 50) = Num 0"
    by (rule euclid_eval) simp_all
  have n: "overlap ! 0 = \<lparr>pos = (Num 10, Num 50), vel = (Num 0, Num 0)\<rparr>"
    "overlap ! Suc 0 = \<lparr>pos = (Num 10, Num 50), vel = (Num 0, Num 0)\<rparr>"
    by (simp_all add: overlap_def)
  have "length overlap = 2" by (simp add: overlap_def)
  then have "raw_pairs 3 overlap = [(0, 1)]"
    by (simp add: raw_pairs_def triu_2 n e)
  then have "detect_pairs 3 overlap = [(0, 1)]"
    by (simp add: detect_pairs_def unique_index_single int_index_def)
  then show ?thesis by (simp add: detect_eq)
qed

lemma resolve_overlap: "resolve 3 [0] [1] overlap =
   [\<lparr>pos = (Undef, Undef), vel = (Undef, Undef)\<rparr>,
    \<lparr>pos = (Undef, Undef), vel = (Undef, Undef)\<rparr>]"
  by (simp add: resolve_def assign_vel_def assign_pos_def assign_rows_def overlap_def
      vec_sub_def vec_add_def scale_def einsum_dot_def norm_row_def)

lemma rebound_undef: "rebound cfg
   [\<lparr>pos = (Undef, Undef), vel = (Undef, Undef)\<rparr>,
    \<lparr>pos = (Undef, Undef), vel = (Undef, Undef)\<rparr>] =
   [\<lparr>pos = (Undef, Undef), vel = (Undef, Undef)\<rparr>,
    \<lparr>pos = (Undef, Undef), vel = (Undef, Undef)\<rparr>]"
  by (simp add: rebound_map reflect_particle_def coord_def)

text \<open>
  C4. Two particles at rest at the same position (10,50), radius 3, one step of time step
  1/5. The specification asks that a matched pair at centre distance 0 be skipped and
  that both rows stay as they were. The step does not skip the pair: the detector matches
  (0,1), the resolver divides by the zero distance, and every cell of both rows comes out
  undefined.
\<close>

theorem degenerate_overlap_undefined:
  "detect (radius (canvas 3)) (advance (1/5) overlap) = ([0], [1])
   \<and> step (canvas 3) (1/5) overlap =
       [\<lparr>pos = (Undef, Undef), vel = (Undef, Undef)\<rparr>,
        \<lparr>pos = (Undef, Undef), vel = (Undef, Undef)\<rparr>]"
  by (simp only: step_def collide_def advance_overlap canvas_sel detect_overlap prod.case
      resolve_overlap rebound_undef simp_thms)



section \<open>States that a step leaves as they are\<close>

lemma raw_pairs_none:
  assumes "\<And>i j. i < j \<Longrightarrow> j < length st
             \<Longrightarrow> \<not> fle (euclidean (pos (st ! i)) (pos (st ! j))) (Num (2 * r))"
  shows "raw_pairs r st = []"
proof -
  have "\<And>p. p \<in> set (triu_indices (length st))
          \<Longrightarrow> \<not> (case p of (i, j) \<Rightarrow> fle (euclidean (pos (st ! i)) (pos (st ! j))) (Num (2 * r)))"
  proof -
    fix p assume a: "p \<in> set (triu_indices (length st))"
    obtain i j where p: "p = (i, j)" by (cases p)
    from a have "i < j \<and> j < length st" unfolding p by (rule triu_indices_range)
    then have "\<not> fle (euclidean (pos (st ! i)) (pos (st ! j))) (Num (2 * r))"
      using assms by blast
    then show "\<not> (case p of (i, j) \<Rightarrow> fle (euclidean (pos (st ! i)) (pos (st ! j))) (Num (2 * r)))"
      by (simp add: p)
  qed
  then show ?thesis unfolding raw_pairs_def by (simp add: filter_empty_conv)
qed

lemma reflect_particle_inside:
  "\<not> flt (coord i (pos p)) (Num (radius cfg))
   \<Longrightarrow> \<not> flt (Num ([w cfg, h cfg] ! i - radius cfg)) (coord i (pos p))
   \<Longrightarrow> reflect_particle cfg i p = p"
  by (simp add: reflect_particle_def)

lemma rebound_inside:
  assumes "\<And>p. p \<in> set st \<Longrightarrow>
      \<not> flt (fst (pos p)) (Num (radius cfg)) \<and> \<not> flt (Num (w cfg - radius cfg)) (fst (pos p))
    \<and> \<not> flt (snd (pos p)) (Num (radius cfg)) \<and> \<not> flt (Num (h cfg - radius cfg)) (snd (pos p))"
  shows "rebound cfg st = st"
proof -
  have "\<And>p. p \<in> set st \<Longrightarrow> reflect_particle cfg 1 (reflect_particle cfg 0 p) = p"
  proof -
    fix p assume "p \<in> set st"
    from assms[OF this] have "reflect_particle cfg 0 p = p" "reflect_particle cfg 1 p = p"
      by (simp_all add: reflect_particle_inside coord_def)
    then show "reflect_particle cfg 1 (reflect_particle cfg 0 p) = p" by simp
  qed
  then show ?thesis unfolding rebound_map by (rule map_idI)
qed

lemma step_fixed:
  assumes zero: "\<And>p. p \<in> set st \<Longrightarrow> vel p = (Num 0, Num 0)"
    and apart: "\<And>i j. i < j \<Longrightarrow> j < length st
             \<Longrightarrow> \<not> fle (euclidean (pos (st ! i)) (pos (st ! j))) (Num (2 * radius cfg))"
    and inside: "\<And>p. p \<in> set st \<Longrightarrow>
      \<not> flt (fst (pos p)) (Num (radius cfg)) \<and> \<not> flt (Num (w cfg - radius cfg)) (fst (pos p))
    \<and> \<not> flt (snd (pos p)) (Num (radius cfg)) \<and> \<not> flt (Num (h cfg - radius cfg)) (snd (pos p))"
  shows "step cfg dt st = st" and "detect (radius cfg) (advance dt st) = ([], [])"
proof -
  have a: "advance dt st = st" using zero by (rule advance_zero)
  have r: "raw_pairs (radius cfg) st = []" using apart by (rule raw_pairs_none)
  have b: "rebound cfg st = st" using inside by (rule rebound_inside)
  show "step cfg dt st = st" unfolding step_def a collide_no_raw[OF r] b ..
  show "detect (radius cfg) (advance dt st) = ([], [])" unfolding a using r by (rule detect_no_raw)
qed

text \<open>
  C9, as amended. In a state in which every velocity is zero, no two particles are within
  \<open>2 * radius\<close> of each other, and no coordinate is below \<open>radius\<close> or above
  \<open>size - radius\<close>, any number of steps with any time step leaves the state as it is,
  and the matching of the next step is empty.
\<close>

theorem zero_velocity_fixpoint:
  assumes "\<forall>p \<in> set st. vel p = (Num 0, Num 0)"
    and "\<forall>j < length st. \<forall>i < j.
           \<not> fle (euclidean (pos (st ! i)) (pos (st ! j))) (Num (2 * radius cfg))"
    and "\<forall>p \<in> set st.
           \<not> flt (fst (pos p)) (Num (radius cfg)) \<and> \<not> flt (Num (w cfg - radius cfg)) (fst (pos p))
         \<and> \<not> flt (snd (pos p)) (Num (radius cfg)) \<and> \<not> flt (Num (h cfg - radius cfg)) (snd (pos p))"
  shows "(step cfg dt ^^ n) st = st
       \<and> detect (radius cfg) (advance dt ((step cfg dt ^^ n) st)) = ([], [])"
proof -
  have z: "\<And>p. p \<in> set st \<Longrightarrow> vel p = (Num 0, Num 0)" using assms(1) by blast
  have ap: "\<And>i j. i < j \<Longrightarrow> j < length st
             \<Longrightarrow> \<not> fle (euclidean (pos (st ! i)) (pos (st ! j))) (Num (2 * radius cfg))"
    using assms(2) by blast
  have ins: "\<And>p. p \<in> set st \<Longrightarrow>
      \<not> flt (fst (pos p)) (Num (radius cfg)) \<and> \<not> flt (Num (w cfg - radius cfg)) (fst (pos p))
    \<and> \<not> flt (snd (pos p)) (Num (radius cfg)) \<and> \<not> flt (Num (h cfg - radius cfg)) (snd (pos p))"
    using assms(3) by blast
  have fixed: "(step cfg dt ^^ n) st = st"
  proof (induction n)
    case 0
    show ?case by simp
  next
    case (Suc n)
    have "(step cfg dt ^^ Suc n) st = step cfg dt ((step cfg dt ^^ n) st)" by simp
    also have "\<dots> = step cfg dt st" by (simp only: Suc.IH)
    also have "\<dots> = st" using z ap ins by (rule step_fixed(1))
    finally show ?case .
  qed
  have "detect (radius cfg) (advance dt st) = ([], [])" using z ap ins by (rule step_fixed(2))
  with fixed show ?thesis by simp
qed

lemma sqrt_25: "sqrt 25 = 5"
  by (rule real_sqrt_unique) simp_all

lemma detect_crowded: "detect 3 crowded = ([0], [1])"
proof -
  have n: "crowded ! 0 = \<lparr>pos = (Num 10, Num 50), vel = (Num 0, Num 0)\<rparr>"
    "crowded ! Suc 0 = \<lparr>pos = (Num 13, Num 54), vel = (Num 0, Num 0)\<rparr>"
    by (simp_all add: crowded_def)
  have "length crowded = 2" by (simp add: crowded_def)
  then have "raw_pairs 3 crowded = [(0, 1)]"
    by (simp add: raw_pairs_def triu_2 n euclid_oblique)
  then have "detect_pairs 3 crowded = [(0, 1)]"
    by (simp add: detect_pairs_def unique_index_single int_index_def)
  then show ?thesis by (simp add: detect_eq)
qed

lemma resolve_crowded: "resolve 3 [0] [1] crowded =
   [\<lparr>pos = (Num (97/10), Num (248/5)), vel = (Num 0, Num 0)\<rparr>,
    \<lparr>pos = (Num (133/10), Num (272/5)), vel = (Num 0, Num 0)\<rparr>]"
  by (simp add: resolve_def assign_vel_def assign_pos_def assign_rows_def crowded_def
      vec_sub_def vec_add_def scale_def einsum_dot_def norm_row_def sqrt_25)

lemma step_crowded: "step (canvas 3) (1/5) crowded =
   [\<lparr>pos = (Num (97/10), Num (248/5)), vel = (Num 0, Num 0)\<rparr>,
    \<lparr>pos = (Num (133/10), Num (272/5)), vel = (Num 0, Num 0)\<rparr>]"
proof -
  have a: "advance (1/5) crowded = crowded"
    by (rule advance_zero) (auto simp: crowded_def)
  have c: "collide (canvas 3) crowded = resolve 3 [0] [1] crowded"
    by (simp only: collide_def canvas_sel detect_crowded prod.case)
  have "rebound (canvas 3)
     [\<lparr>pos = (Num (97/10), Num (248/5)), vel = (Num 0, Num 0)\<rparr>,
      \<lparr>pos = (Num (133/10), Num (272/5)), vel = (Num 0, Num 0)\<rparr>] =
     [\<lparr>pos = (Num (97/10), Num (248/5)), vel = (Num 0, Num 0)\<rparr>,
      \<lparr>pos = (Num (133/10), Num (272/5)), vel = (Num 0, Num 0)\<rparr>]"
    by (rule rebound_inside) (auto simp: canvas_sel)
  then show ?thesis by (simp only: step_def a c resolve_crowded)
qed

lemma step_at_wall: "step (canvas 3) (1/5) at_wall = [\<lparr>pos = (Num 4, Num 50), vel = (Num 0, Num 0)\<rparr>]"
proof -
  have a: "advance (1/5) at_wall = at_wall"
    by (rule advance_zero) (auto simp: at_wall_def)
  have c: "collide (canvas 3) at_wall = at_wall"
    unfolding at_wall_def by (rule collide_single)
  have "rebound (canvas 3) at_wall = [\<lparr>pos = (Num 4, Num 50), vel = (Num 0, Num 0)\<rparr>]"
    by (simp add: at_wall_def rebound_map reflect_particle_def reflect_low_def canvas_sel
        coord_def set_coord_def push_low_at_wall)
  then show ?thesis by (simp only: step_def a c)
qed

text \<open>
  C9 as it was stated fails: zero velocities do not keep the positions. Two particles at
  rest 5 apart with radius 3 are matched and pushed apart to distance 6; a particle at
  rest at x = 2 with radius 3 is moved to x = 4 by the boundary reflector.
\<close>

theorem zero_velocity_counterexample:
  "crowded = [\<lparr>pos = (Num 10, Num 50), vel = (Num 0, Num 0)\<rparr>,
              \<lparr>pos = (Num 13, Num 54), vel = (Num 0, Num 0)\<rparr>]
   \<and> detect (radius (canvas 3)) (advance (1/5) crowded) = ([0], [1])
   \<and> step (canvas 3) (1/5) crowded =
       [\<lparr>pos = (Num (97/10), Num (248/5)), vel = (Num 0, Num 0)\<rparr>,
        \<lparr>pos = (Num (133/10), Num (272/5)), vel = (Num 0, Num 0)\<rparr>]
   \<and> at_wall = [\<lparr>pos = (Num 2, Num 50), vel = (Num 0, Num 0)\<rparr>]
   \<and> step (canvas 3) (1/5) at_wall = [\<lparr>pos = (Num 4, Num 50), vel = (Num 0, Num 0)\<rparr>]"
proof -
  have a: "advance (1/5) crowded = crowded"
    by (rule advance_zero) (auto simp: crowded_def)
  have "detect (radius (canvas 3)) (advance (1/5) crowded) = ([0], [1])"
    by (simp only: a canvas_sel detect_crowded)
  then show ?thesis
    using step_crowded step_at_wall crowded_def at_wall_def by (intro conjI)
qed

theorem zero_velocity_fixpoint_witness:
  "at_rest = [\<lparr>pos = (Num 10, Num 50), vel = (Num 0, Num 0)\<rparr>,
              \<lparr>pos = (Num 100, Num 50), vel = (Num 0, Num 0)\<rparr>]
   \<and> (step (canvas 3) (1/5) ^^ 3) at_rest = at_rest
   \<and> detect (radius (canvas 3)) (advance (1/5) ((step (canvas 3) (1/5) ^^ 3) at_rest)) = ([], [])"
proof -
  have z: "\<forall>p \<in> set at_rest. vel p = (Num 0, Num 0)" by (simp add: at_rest_def)
  have e: "euclidean (pos (at_rest ! 0)) (pos (at_rest ! 1)) = Num 90"
    by (simp add: at_rest_def euclid_bystander)
  have ap: "\<forall>j < length at_rest. \<forall>i < j.
      \<not> fle (euclidean (pos (at_rest ! i)) (pos (at_rest ! j))) (Num (2 * radius (canvas 3)))"
  proof (intro allI impI)
    fix j i assume "j < length at_rest" "i < j"
    then have "i = 0 \<and> j = 1" by (auto simp: at_rest_def)
    with e show "\<not> fle (euclidean (pos (at_rest ! i)) (pos (at_rest ! j))) (Num (2 * radius (canvas 3)))"
      by (simp add: canvas_sel)
  qed
  have ins: "\<forall>p \<in> set at_rest.
           \<not> flt (fst (pos p)) (Num (radius (canvas 3)))
         \<and> \<not> flt (Num (w (canvas 3) - radius (canvas 3))) (fst (pos p))
         \<and> \<not> flt (snd (pos p)) (Num (radius (canvas 3)))
         \<and> \<not> flt (Num (h (canvas 3) - radius (canvas 3))) (snd (pos p))"
    by (simp add: at_rest_def canvas_sel)
  from at_rest_def zero_velocity_fixpoint[OF z ap ins, where dt = "1/5" and n = 3]
  show ?thesis by (rule conjI)
qed

end
